theory Spec2Isabelle
  imports Complex_Main
begin

section \<open>Parking management: the data model of models.py\<close>

text \<open>
  The four tables of \<^verbatim>\<open>models.py\<close> are records, and the database is a record of four
  lists of rows, each in primary-key (insertion) order. A query with \<^verbatim>\<open>.first()\<close> and no
  \<^verbatim>\<open>order_by\<close> returns the first matching row of that order, \<^verbatim>\<open>.get(id)\<close> the row with
  that primary key.

  Modelling decisions, all visible in the definitions below:
  \<^item> Python's unbounded \<^verbatim>\<open>int\<close> is \<^typ>\<open>int\<close>; a \<^verbatim>\<open>Float\<close> column is an exact rational
    (\<^typ>\<open>rat\<close>), so rounding errors of binary floating point, infinities and NaN are not
    represented;
  \<^item> a \<^verbatim>\<open>DateTime\<close> is the number of microseconds since a fixed origin (\<^typ>\<open>int\<close>), a
    nullable column is an \<^typ>\<open>'a option\<close>;
  \<^item> a string is a \<^typ>\<open>string\<close>, one \<^typ>\<open>char\<close> per character; the model is exact
    for ASCII text (\<^verbatim>\<open>str.upper()\<close> changes the ASCII letters only);
  \<^item> the columns that only carry a creation time and that no route reads
    (\<^verbatim>\<open>registration_timestamp\<close>, \<^verbatim>\<open>created_at\<close>) and the stored password hash are left out;
  \<^item> the clock (\<^verbatim>\<open>datetime.utcnow()\<close>) and the fate of the \<^verbatim>\<open>try\<close> block that ends in
    \<^verbatim>\<open>db.session.commit()\<close> are inputs of each route: \<open>now\<close> and \<open>commit_ok\<close>. When the
    block raises, the route rolls back and the database is the one it started from.
\<close>

record user =
  u_id :: int
  username :: string
  role :: string

record parking_lot =
  l_id :: int
  prime_location_name :: string
  price :: rat
  address :: string
  pin_code :: string
  maximum_number_of_spots :: int

record parking_spot =
  s_id :: int
  lot_id :: int
  spot_number :: string
  status :: string

record parking_reservation =
  r_id :: int
  spot_id :: int
  user_id :: int
  parking_timestamp :: int
  leaving_timestamp :: "int option"
  parking_cost_per_unit_time :: rat
  total_cost :: "rat option"

record db =
  users :: "user list"
  lots :: "parking_lot list"
  spots :: "parking_spot list"
  reservations :: "parking_reservation list"

text \<open>
  What a route answers. The source flashes a message and redirects; the error kinds are
  the ones the messages stand for. \<open>UncaughtValueError\<close> is the \<^verbatim>\<open>ValueError\<close> that
  \<^verbatim>\<open>float(...)\<close> raises outside any \<^verbatim>\<open>try\<close> in \<^verbatim>\<open>edit_parking_lot\<close>.
\<close>

datatype error =
    Forbidden
  | NotFound
  | ValidationError
  | UsernameTaken
  | Conflict nat
  | AlreadyParked
  | NoActiveReservation
  | CapacityExceeded
  | PersistenceFailure
  | UncaughtValueError

datatype success =
    Page
  | Registered
  | LotCreated string int
  | LotUpdated
  | LotDeleted string
  | Booked string string
  | Released string rat

datatype http_method = GET | POST

text \<open>
  A numeric form field, as the routes see it: the key is absent, the text is empty, the
  text is not empty and \<^verbatim>\<open>float\<close>/\<^verbatim>\<open>int\<close> raises \<^verbatim>\<open>ValueError\<close> on it, or it parses.
\<close>

datatype 'a field = Absent | Blank | Malformed | Parsed 'a

record lot_form =
  f_prime_location_name :: string
  f_price :: "rat field"
  f_address :: string
  f_pin_code :: string
  f_maximum_number_of_spots :: "int field"

section \<open>Python and SQLite primitives\<close>

text \<open>\<^verbatim>\<open>str.strip()\<close>: whitespace is removed at both ends.\<close>

definition isspace :: "char \<Rightarrow> bool" where
  "isspace c =
     (let n = (of_char c :: nat)
      in (9 \<le> n \<and> n \<le> 13) \<or> (28 \<le> n \<and> n \<le> 32) \<or> n = 133 \<or> n = 160)"

definition strip :: "string \<Rightarrow> string" where
  "strip s = rev (dropWhile isspace (rev (dropWhile isspace s)))"

text \<open>\<^verbatim>\<open>str.upper()\<close> on the ASCII letters; every other character is kept.\<close>

definition upper_char :: "char \<Rightarrow> char" where
  "upper_char c =
     (let n = (of_char c :: nat) in if 97 \<le> n \<and> n \<le> 122 then char_of (n - 32) else c)"

definition upper :: "string \<Rightarrow> string" where
  "upper s = map upper_char s"

text \<open>The format \<^verbatim>\<open>{n:03d}\<close>: decimal digits, zero-padded to a width of three.\<close>

definition digit_char :: "nat \<Rightarrow> char" where
  "digit_char d = char_of (48 + d)"

function str_nat :: "nat \<Rightarrow> string" where
  "str_nat n = (if n < 10 then [digit_char n] else str_nat (n div 10) @ [digit_char (n mod 10)])"
  by pat_completeness auto
termination
  by (relation "measure id") auto

definition zero_pad :: "nat \<Rightarrow> string \<Rightarrow> string" where
  "zero_pad w ds = replicate (w - length ds) (CHR ''0'') @ ds"

definition format_03d :: "int \<Rightarrow> string" where
  "format_03d n =
     (if n < 0 then CHR ''-'' # zero_pad 2 (str_nat (nat (- n)))
      else zero_pad 3 (str_nat (nat n)))"

text \<open>
  \<^verbatim>\<open>round(x, 2)\<close>: the nearest multiple of 1/100, a tie going to the even one.
\<close>

definition round_half_even :: "rat \<Rightarrow> int" where
  "round_half_even q =
     (let f = \<lfloor>q\<rfloor>; d = q - of_int f
      in if d < 1 / 2 then f
         else if 1 / 2 < d then f + 1
         else if even f then f else f + 1)"

definition round2 :: "rat \<Rightarrow> rat" where
  "round2 x = of_int (round_half_even (x * 100)) / 100"

text \<open>\<^verbatim>\<open>timedelta.total_seconds()\<close> of a difference of microsecond timestamps.\<close>

definition total_seconds :: "int \<Rightarrow> rat" where
  "total_seconds d = of_int d / 1000000"

text \<open>
  The key SQLite gives a new row of a table with an \<^verbatim>\<open>INTEGER PRIMARY KEY\<close>: one more than
  the largest key in the table, 1 in an empty table.
\<close>

definition next_id :: "int list \<Rightarrow> int" where
  "next_id ids = (case ids of [] \<Rightarrow> 1 | i # js \<Rightarrow> fold max js i + 1)"

section \<open>models.py: the methods of ParkingReservation\<close>

definition duration_hours :: "int \<Rightarrow> parking_reservation \<Rightarrow> rat" where
  "duration_hours now r =
     (case leaving_timestamp r of
        Some lt \<Rightarrow> total_seconds (lt - parking_timestamp r) / 3600
      | None \<Rightarrow> total_seconds (now - parking_timestamp r) / 3600)"

definition calculate_total_cost :: "int \<Rightarrow> parking_reservation \<Rightarrow> rat" where
  "calculate_total_cost now r =
     (case leaving_timestamp r of
        Some lt \<Rightarrow> round2 (duration_hours now r * parking_cost_per_unit_time r)
      | None \<Rightarrow> 0)"

section \<open>app.py: the routes\<close>

text \<open>
  \<^verbatim>\<open>load_user\<close> gives Flask-Login the row of the logged-in user; every route below takes
  that row as \<open>cu\<close> (\<^verbatim>\<open>current_user\<close>).
\<close>

definition load_user :: "db \<Rightarrow> int \<Rightarrow> user option" where
  "load_user s uid = find (\<lambda>u. u_id u = uid) (users s)"

definition register :: "http_method \<Rightarrow> string \<Rightarrow> string \<Rightarrow> bool \<Rightarrow> db \<Rightarrow> (error + success) \<times> db" where
  "register meth username_field password_field commit_ok s =
     (if meth = GET then (Inr Page, s)
      else
        let name = strip username_field in
        if name = [] \<or> password_field = [] then (Inl ValidationError, s)
        else if length password_field < 6 then (Inl ValidationError, s)
        else if find (\<lambda>u. username u = name) (users s) \<noteq> None then (Inl UsernameTaken, s)
        else if \<not> commit_ok then (Inl PersistenceFailure, s)
        else
          (Inr Registered,
           s\<lparr>users := users s @
              [\<lparr>u_id = next_id (map u_id (users s)), username = name, role = ''user''\<rparr>]\<rparr>))"

definition field_given :: "'a field \<Rightarrow> bool" where
  "field_given f = (case f of Absent \<Rightarrow> False | Blank \<Rightarrow> False | _ \<Rightarrow> True)"

definition field_value :: "'a field \<Rightarrow> 'a option" where
  "field_value f = (case f of Parsed v \<Rightarrow> Some v | _ \<Rightarrow> None)"

text \<open>
  The loop of \<^verbatim>\<open>create_parking_lot\<close> over \<^verbatim>\<open>range(1, max_spots + 1)\<close>: one spot per
  ordinal, in ascending order; the flush numbers the new rows consecutively from \<open>base\<close>.
\<close>

definition new_spot :: "int \<Rightarrow> string \<Rightarrow> int \<Rightarrow> int \<Rightarrow> parking_spot" where
  "new_spot lid name base k =
     \<lparr>s_id = base + k - 1, lot_id = lid,
      spot_number = upper (take 3 name) @ ''-'' @ format_03d k, status = ''A''\<rparr>"

definition new_spots :: "int \<Rightarrow> string \<Rightarrow> int \<Rightarrow> int \<Rightarrow> parking_spot list" where
  "new_spots lid name base max_spots = map (new_spot lid name base) [1..max_spots]"

definition create_parking_lot ::
  "user \<Rightarrow> http_method \<Rightarrow> lot_form \<Rightarrow> bool \<Rightarrow> db \<Rightarrow> (error + success) \<times> db" where
  "create_parking_lot cu meth form commit_ok s =
     (if role cu \<noteq> ''admin'' then (Inl Forbidden, s)
      else if meth = GET then (Inr Page, s)
      else
        let name = strip (f_prime_location_name form);
            addr = strip (f_address form);
            pin = strip (f_pin_code form)
        in
        if name = [] \<or> \<not> field_given (f_price form) \<or> addr = [] \<or> pin = []
           \<or> \<not> field_given (f_maximum_number_of_spots form)
        then (Inl ValidationError, s)
        else
          (case field_value (f_price form) of
             None \<Rightarrow> (Inl ValidationError, s)
           | Some p \<Rightarrow>
              (case field_value (f_maximum_number_of_spots form) of
                 None \<Rightarrow> (Inl ValidationError, s)
               | Some max_spots \<Rightarrow>
                  if p \<le> 0 \<or> max_spots \<le> 0 then (Inl ValidationError, s)
                  else if \<not> commit_ok then (Inl PersistenceFailure, s)
                  else
                    let lid = next_id (map l_id (lots s));
                        new_lot = \<lparr>l_id = lid, prime_location_name = name, price = p,
                                   address = addr, pin_code = pin,
                                   maximum_number_of_spots = max_spots\<rparr>
                    in (Inr (LotCreated name max_spots),
                        s\<lparr>lots := lots s @ [new_lot],
                          spots := spots s @
                            new_spots lid name (next_id (map s_id (spots s))) max_spots\<rparr>))))"

text \<open>
  \<^verbatim>\<open>float(request.form.get('price', 0))\<close>: an absent key is the number 0; an empty or
  malformed text raises \<^verbatim>\<open>ValueError\<close>, which nothing catches.
\<close>

definition edit_price :: "rat field \<Rightarrow> rat option" where
  "edit_price f = (case f of Absent \<Rightarrow> Some 0 | Parsed v \<Rightarrow> Some v | _ \<Rightarrow> None)"

definition edit_parking_lot ::
  "user \<Rightarrow> int \<Rightarrow> http_method \<Rightarrow> lot_form \<Rightarrow> bool \<Rightarrow> db \<Rightarrow> (error + success) \<times> db" where
  "edit_parking_lot cu lid meth form commit_ok s =
     (if role cu \<noteq> ''admin'' then (Inl Forbidden, s)
      else
        (case find (\<lambda>l. l_id l = lid) (lots s) of
           None \<Rightarrow> (Inl NotFound, s)
         | Some lot \<Rightarrow>
            if meth = GET then (Inr Page, s)
            else
              (case edit_price (f_price form) of
                 None \<Rightarrow> (Inl UncaughtValueError, s)
               | Some p \<Rightarrow>
                  if \<not> commit_ok then (Inl PersistenceFailure, s)
                  else
                    (Inr LotUpdated,
                     s\<lparr>lots := map (\<lambda>l. if l_id l = lid
                          then l\<lparr>prime_location_name := strip (f_prime_location_name form),
                                 price := p,
                                 address := strip (f_address form),
                                 pin_code := strip (f_pin_code form)\<rparr>
                          else l) (lots s)\<rparr>))))"

text \<open>
  \<^verbatim>\<open>db.session.delete(lot)\<close> deletes the lot and, through the \<^verbatim>\<open>cascade\<close> of
  \<^verbatim>\<open>ParkingLot.spots\<close>, the spots of the lot. Reservation rows are not touched.
\<close>

definition delete_parking_lot :: "user \<Rightarrow> int \<Rightarrow> bool \<Rightarrow> db \<Rightarrow> (error + success) \<times> db" where
  "delete_parking_lot cu lid commit_ok s =
     (if role cu \<noteq> ''admin'' then (Inl Forbidden, s)
      else
        (case find (\<lambda>l. l_id l = lid) (lots s) of
           None \<Rightarrow> (Inl NotFound, s)
         | Some lot \<Rightarrow>
            let occupied_spots =
                  length (filter (\<lambda>sp. lot_id sp = lid \<and> status sp = ''O'') (spots s))
            in
            if occupied_spots > 0 then (Inl (Conflict occupied_spots), s)
            else if \<not> commit_ok then (Inl PersistenceFailure, s)
            else
              (Inr (LotDeleted (prime_location_name lot)),
               s\<lparr>lots := filter (\<lambda>l. l_id l \<noteq> lid) (lots s),
                 spots := filter (\<lambda>sp. lot_id sp \<noteq> lid) (spots s)\<rparr>)))"

definition open_reservation :: "db \<Rightarrow> int \<Rightarrow> parking_reservation option" where
  "open_reservation s uid =
     find (\<lambda>r. user_id r = uid \<and> leaving_timestamp r = None) (reservations s)"

definition available_spot :: "db \<Rightarrow> int \<Rightarrow> parking_spot option" where
  "available_spot s lid = find (\<lambda>sp. lot_id sp = lid \<and> status sp = ''A'') (spots s)"

definition book_spot :: "user \<Rightarrow> int \<Rightarrow> int \<Rightarrow> bool \<Rightarrow> db \<Rightarrow> (error + success) \<times> db" where
  "book_spot cu lid now commit_ok s =
     (if role cu \<noteq> ''user'' then (Inl Forbidden, s)
      else
        (case open_reservation s (u_id cu) of
           Some existing \<Rightarrow> (Inl AlreadyParked, s)
         | None \<Rightarrow>
            (case find (\<lambda>l. l_id l = lid) (lots s) of
               None \<Rightarrow> (Inl NotFound, s)
             | Some lot \<Rightarrow>
                (case available_spot s lid of
                   None \<Rightarrow> (Inl CapacityExceeded, s)
                 | Some sp \<Rightarrow>
                    if \<not> commit_ok then (Inl PersistenceFailure, s)
                    else
                      (Inr (Booked (spot_number sp) (prime_location_name lot)),
                       s\<lparr>spots := map (\<lambda>x. if s_id x = s_id sp then x\<lparr>status := ''O''\<rparr> else x)
                                      (spots s),
                         reservations := reservations s @
                           [\<lparr>r_id = next_id (map r_id (reservations s)),
                             spot_id = s_id sp, user_id = u_id cu,
                             parking_timestamp = now, leaving_timestamp = None,
                             parking_cost_per_unit_time = price lot,
                             total_cost = None\<rparr>]\<rparr>)))))"

definition release_spot :: "user \<Rightarrow> int \<Rightarrow> bool \<Rightarrow> db \<Rightarrow> (error + success) \<times> db" where
  "release_spot cu now commit_ok s =
     (if role cu \<noteq> ''user'' then (Inl Forbidden, s)
      else
        (case open_reservation s (u_id cu) of
           None \<Rightarrow> (Inl NoActiveReservation, s)
         | Some r \<Rightarrow>
            if \<not> commit_ok then (Inl PersistenceFailure, s)
            else
              let cost = calculate_total_cost now (r\<lparr>leaving_timestamp := Some now\<rparr>);
                  spot = find (\<lambda>sp. s_id sp = spot_id r) (spots s);
                  spot_name = (case spot of Some sp \<Rightarrow> spot_number sp | None \<Rightarrow> ''your spot'')
              in
              (Inr (Released spot_name cost),
               s\<lparr>reservations :=
                    map (\<lambda>x. if r_id x = r_id r
                              then x\<lparr>leaving_timestamp := Some now, total_cost := Some cost\<rparr>
                              else x) (reservations s),
                 spots := map (\<lambda>x. if s_id x = spot_id r then x\<lparr>status := ''A''\<rparr> else x)
                              (spots s)\<rparr>)))"

section \<open>Runs of the application\<close>

text \<open>
  At start-up the tables are created and, as no admin exists, the default admin is
  inserted. A request carries the id of the logged-in user; \<^verbatim>\<open>@login_required\<close> turns a
  request away, with the database as it was, when \<open>load_user\<close> finds no such user.
\<close>

definition init_db :: db where
  "init_db =
     \<lparr>users = [\<lparr>u_id = 1, username = ''admin'', role = ''admin''\<rparr>],
      lots = [], spots = [], reservations = []\<rparr>"

datatype request =
    Register http_method string string bool
  | CreateLot int http_method lot_form bool
  | EditLot int int http_method lot_form bool
  | DeleteLot int int bool
  | Book int int int bool
  | Release int int bool

fun handle :: "request \<Rightarrow> db \<Rightarrow> db" where
  "handle (Register meth name pw ok) s = snd (register meth name pw ok s)"
| "handle (CreateLot uid meth form ok) s =
     (case load_user s uid of None \<Rightarrow> s | Some cu \<Rightarrow> snd (create_parking_lot cu meth form ok s))"
| "handle (EditLot uid lid meth form ok) s =
     (case load_user s uid of None \<Rightarrow> s | Some cu \<Rightarrow> snd (edit_parking_lot cu lid meth form ok s))"
| "handle (DeleteLot uid lid ok) s =
     (case load_user s uid of None \<Rightarrow> s | Some cu \<Rightarrow> snd (delete_parking_lot cu lid ok s))"
| "handle (Book uid lid now ok) s =
     (case load_user s uid of None \<Rightarrow> s | Some cu \<Rightarrow> snd (book_spot cu lid now ok s))"
| "handle (Release uid now ok) s =
     (case load_user s uid of None \<Rightarrow> s | Some cu \<Rightarrow> snd (release_spot cu now ok s))"

definition run :: "request list \<Rightarrow> db" where
  "run reqs = fold handle reqs init_db"

section \<open>Notions the specification uses\<close>

text \<open>
  An open reservation is one with no departure time. \<open>open_on s i\<close> counts the open
  reservations that reference the spot with id \<open>i\<close>, \<open>open_of_user s u\<close> the open
  reservations of the user with id \<open>u\<close>; \<open>spot_status s i\<close> is the status of
  \<^verbatim>\<open>ParkingSpot.query.get(i)\<close>.
\<close>

definition open_on :: "db \<Rightarrow> int \<Rightarrow> nat" where
  "open_on s i =
     length (filter (\<lambda>r. spot_id r = i \<and> leaving_timestamp r = None) (reservations s))"

definition open_of_user :: "db \<Rightarrow> int \<Rightarrow> nat" where
  "open_of_user s u =
     length (filter (\<lambda>r. user_id r = u \<and> leaving_timestamp r = None) (reservations s))"

definition spot_status :: "db \<Rightarrow> int \<Rightarrow> string option" where
  "spot_status s i = map_option status (find (\<lambda>sp. s_id sp = i) (spots s))"

text \<open>
  The invariant of the specification: a spot is Occupied exactly when one open
  reservation references it, and Available otherwise.
\<close>

definition spot_status_invariant :: "db \<Rightarrow> bool" where
  "spot_status_invariant s =
     (\<forall>sp \<in> set (spots s).
        (status sp = ''O'' \<longleftrightarrow> open_on s (s_id sp) = 1) \<and>
        (status sp \<noteq> ''O'' \<longrightarrow> status sp = ''A''))"

text \<open>
  The inductive strengthening: an Occupied spot has one open reservation and an Available
  one has none, every open reservation references a spot that exists, and the primary
  keys of spots and reservations are distinct.
\<close>

definition consistent :: "db \<Rightarrow> bool" where
  "consistent s =
     ((\<forall>sp \<in> set (spots s).
         (status sp = ''O'' \<and> open_on s (s_id sp) = 1) \<or>
         (status sp = ''A'' \<and> open_on s (s_id sp) = 0)) \<and>
      (\<forall>r \<in> set (reservations s).
         leaving_timestamp r = None \<longrightarrow> spot_id r \<in> s_id ` set (spots s)) \<and>
      distinct (map s_id (spots s)) \<and>
      distinct (map r_id (reservations s)))"

definition one_open_per_user :: "db \<Rightarrow> bool" where
  "one_open_per_user s = (\<forall>u. open_of_user s u \<le> 1)"

text \<open>Whoever has a reservation logs in as a regular user.\<close>

definition reservations_of_regular_users :: "db \<Rightarrow> bool" where
  "reservations_of_regular_users s =
     (\<forall>r \<in> set (reservations s). \<forall>cu.
        load_user s (user_id r) = Some cu \<longrightarrow> role cu = ''user'')"

text \<open>
  The ordinal of a spot is not a column of its own: it is the number that
  \<^verbatim>\<open>create_parking_lot\<close> wrote after the last hyphen of \<^verbatim>\<open>spot_number\<close>.
\<close>

definition nat_of_digits :: "string \<Rightarrow> nat" where
  "nat_of_digits ds = foldl (\<lambda>a c. 10 * a + (of_char c - 48)) 0 ds"

definition ordinal :: "parking_spot \<Rightarrow> nat" where
  "ordinal sp =
     nat_of_digits (rev (takeWhile (\<lambda>c. c \<noteq> CHR ''-'') (rev (spot_number sp))))"

text \<open>
  Within every lot the spots stand in the table in strictly ascending ordinal order, and
  every spot belongs to a lot that exists.
\<close>

definition ordered_lots :: "db \<Rightarrow> bool" where
  "ordered_lots s =
     ((\<forall>lid. sorted_wrt (<) (map ordinal (filter (\<lambda>sp. lot_id sp = lid) (spots s)))) \<and>
      (\<forall>sp \<in> set (spots s). lot_id sp \<in> l_id ` set (lots s)))"



section \<open>A concrete scenario\<close>

text \<open>
  The lot "Mall" at 10.0 per hour with two spots, the user alice (the second user, after
  the default admin), and the requests that register her, create the lot and book a spot.
\<close>

definition mall_form :: lot_form where
  "mall_form =
     \<lparr>f_prime_location_name = ''Mall'', f_price = Parsed 10, f_address = ''1 Main St'',
      f_pin_code = ''12345'', f_maximum_number_of_spots = Parsed 2\<rparr>"

definition admin :: user where
  "admin = \<lparr>u_id = 1, username = ''admin'', role = ''admin''\<rparr>"

definition alice :: user where
  "alice = \<lparr>u_id = 2, username = ''alice'', role = ''user''\<rparr>"

definition first_requests :: "request list" where
  "first_requests = [Register POST ''alice'' ''secret1'' True, CreateLot 1 POST mall_form True]"

definition mall_db :: "string \<Rightarrow> string \<Rightarrow> parking_reservation list \<Rightarrow> db" where
  "mall_db st1 st2 rs =
     \<lparr>users = [admin, alice],
      lots = [\<lparr>l_id = 1, prime_location_name = ''Mall'', price = 10,
               address = ''1 Main St'', pin_code = ''12345'', maximum_number_of_spots = 2\<rparr>],
      spots = [\<lparr>s_id = 1, lot_id = 1, spot_number = ''MAL-001'', status = st1\<rparr>,
               \<lparr>s_id = 2, lot_id = 1, spot_number = ''MAL-002'', status = st2\<rparr>],
      reservations = rs\<rparr>"

definition parked :: "int \<Rightarrow> parking_reservation" where
  "parked t =
     \<lparr>r_id = 1, spot_id = 1, user_id = 2, parking_timestamp = t, leaving_timestamp = None,
      parking_cost_per_unit_time = 10, total_cost = None\<rparr>"

text \<open>A form with a blank name, blank address and postal code, and a negative price.\<close>

definition blank_form :: lot_form where
  "blank_form =
     \<lparr>f_prime_location_name = ''  '', f_price = Parsed (- 5), f_address = '''',
      f_pin_code = '''', f_maximum_number_of_spots = Absent\<rparr>"

text \<open>The scenario's database with a second lot, which has no spots.\<close>

definition two_lots_db :: db where
  "two_lots_db =
     (mall_db ''O'' ''A'' [parked 0])\<lparr>lots := lots (mall_db ''O'' ''A'' [parked 0]) @
        [\<lparr>l_id = 2, prime_location_name = ''Dock'', price = 4, address = ''2 Quay'',
          pin_code = ''54321'', maximum_number_of_spots = 1\<rparr>]\<rparr>"

text \<open>
  Carol, the fourth user, and the requests after which both spots of the lot are taken:
  bob and carol register, alice and bob book.
\<close>

definition carol :: user where
  "carol = \<lparr>u_id = 4, username = ''carol'', role = ''user''\<rparr>"

definition full_requests :: "request list" where
  "full_requests =
     first_requests @
     [Register POST ''bob'' ''secret2'' True, Register POST ''carol'' ''secret3'' True,
      Book 2 1 0 True, Book 3 1 7 True]"

section \<open>Auxiliary facts\<close>

lemma find_map_keep:
  "(\<And>x. P (f x) = P x) \<Longrightarrow> find P (map f xs) = map_option f (find P xs)"
  by (induction xs) auto

lemma map_keep: "(\<And>x. g (f x) = g x) \<Longrightarrow> map g (map f xs) = map g xs"
  by (induction xs) auto

section \<open>Inventory: deleting and editing a lot\<close>



text \<open>
  C9. Whatever EditLot answers, the users, the spots and the reservations (and with them
  the captured rate of every reservation, open or not) are what they were; every lot
  keeps its id and its \<open>maximum_number_of_spots\<close>, and a lot with another id is not
  changed at all. Only the name, price, address and postal code of the edited lot can
  differ.
\<close>

theorem edit_parking_lot_frame:
  "edit_parking_lot cu lid meth form ok s = (res, s') \<Longrightarrow>
   users s' = users s \<and> spots s' = spots s \<and> reservations s' = reservations s \<and>
   map l_id (lots s') = map l_id (lots s) \<and>
   map maximum_number_of_spots (lots s') = map maximum_number_of_spots (lots s) \<and>
   (\<forall>i < length (lots s). l_id (lots s ! i) \<noteq> lid \<longrightarrow> lots s' ! i = lots s ! i)"
  by (auto simp: edit_parking_lot_def map_keep split: if_splits option.splits)

theorem edit_parking_lot_frame_witness:
  "edit_parking_lot admin 1 POST blank_form True two_lots_db =
     (Inr LotUpdated,
      two_lots_db\<lparr>lots :=
        [\<lparr>l_id = 1, prime_location_name = '''', price = - 5, address = '''',
          pin_code = '''', maximum_number_of_spots = 2\<rparr>,
         \<lparr>l_id = 2, prime_location_name = ''Dock'', price = 4, address = ''2 Quay'',
          pin_code = ''54321'', maximum_number_of_spots = 1\<rparr>]\<rparr>) \<and>
   l_id (lots two_lots_db ! 1) = 2 \<and>
   map parking_cost_per_unit_time (reservations two_lots_db) = [10]"
proof -
  let ?s' = "two_lots_db\<lparr>lots :=
        [\<lparr>l_id = 1, prime_location_name = '''', price = - 5, address = '''',
          pin_code = '''', maximum_number_of_spots = 2\<rparr>,
         \<lparr>l_id = 2, prime_location_name = ''Dock'', price = 4, address = ''2 Quay'',
          pin_code = ''54321'', maximum_number_of_spots = 1\<rparr>]\<rparr>"
  have s: "strip ''  '' = []" "strip [] = []" by code_simp+
  have e: "edit_parking_lot admin 1 POST blank_form True two_lots_db = (Inr LotUpdated, ?s')"
    by (simp add: edit_parking_lot_def admin_def two_lots_db_def mall_db_def blank_form_def
        edit_price_def s)
  show ?thesis
    using edit_parking_lot_frame [OF e] e
    by (simp add: two_lots_db_def mall_db_def parked_def)
qed

text \<open>
  C10. EditLot validates nothing. For an admin and an existing lot, a submitted form never
  yields a ValidationError. When the price field holds a number \<open>p\<close>, or is absent (then
  \<open>p = 0\<close>), and the commit succeeds, the lot gets the stripped name, address and postal
  code of the form, blank or not, and the price \<open>p\<close>, positive or not. CreateLot answers
  the same form with a ValidationError when the name is blank, the price is not positive
  or the price field is absent.
\<close>

theorem edit_parking_lot_no_validation:
  assumes "role cu = ''admin''" and "find (\<lambda>l. l_id l = lid) (lots s) = Some lot"
  shows "fst (edit_parking_lot cu lid POST form ok s) \<noteq> Inl ValidationError \<and>
    (\<forall>p. (f_price form = Parsed p \<or> (f_price form = Absent \<and> p = 0)) \<and> ok \<longrightarrow>
       fst (edit_parking_lot cu lid POST form ok s) = Inr LotUpdated \<and>
       find (\<lambda>l. l_id l = lid) (lots (snd (edit_parking_lot cu lid POST form ok s))) =
         Some (lot\<lparr>prime_location_name := strip (f_prime_location_name form), price := p,
                   address := strip (f_address form), pin_code := strip (f_pin_code form)\<rparr>)) \<and>
    (strip (f_prime_location_name form) = [] \<or> (\<exists>p. f_price form = Parsed p \<and> p \<le> 0)
       \<or> f_price form = Absent \<longrightarrow>
       create_parking_lot cu POST form ok s = (Inl ValidationError, s))"
proof -
  have l: "l_id lot = lid"
    using assms(2) by (auto simp: find_Some_iff)
  have a: "fst (edit_parking_lot cu lid POST form ok s) \<noteq> Inl ValidationError"
    using assms by (simp add: edit_parking_lot_def split: option.splits)
  have b: "\<forall>p. (f_price form = Parsed p \<or> (f_price form = Absent \<and> p = 0)) \<and> ok \<longrightarrow>
       fst (edit_parking_lot cu lid POST form ok s) = Inr LotUpdated \<and>
       find (\<lambda>l. l_id l = lid) (lots (snd (edit_parking_lot cu lid POST form ok s))) =
         Some (lot\<lparr>prime_location_name := strip (f_prime_location_name form), price := p,
                   address := strip (f_address form), pin_code := strip (f_pin_code form)\<rparr>)"
    using assms l by (auto simp: edit_parking_lot_def edit_price_def find_map_keep)
  have c: "strip (f_prime_location_name form) = [] \<or> (\<exists>p. f_price form = Parsed p \<and> p \<le> 0)
       \<or> f_price form = Absent \<longrightarrow>
       create_parking_lot cu POST form ok s = (Inl ValidationError, s)"
    using assms(1)
    by (auto simp: create_parking_lot_def Let_def field_given_def field_value_def
        split: option.splits field.splits)
  show ?thesis using a b c by blast
qed

theorem edit_parking_lot_no_validation_witness:
  "edit_parking_lot admin 1 POST blank_form True (mall_db ''A'' ''A'' []) =
     (Inr LotUpdated,
      (mall_db ''A'' ''A'' [])\<lparr>lots :=
         [\<lparr>l_id = 1, prime_location_name = '''', price = - 5, address = '''',
           pin_code = '''', maximum_number_of_spots = 2\<rparr>]\<rparr>) \<and>
   create_parking_lot admin POST blank_form True (mall_db ''A'' ''A'' []) =
     (Inl ValidationError, mall_db ''A'' ''A'' [])"
proof -
  let ?lot = "\<lparr>l_id = 1, prime_location_name = ''Mall'', price = 10,
               address = ''1 Main St'', pin_code = ''12345'', maximum_number_of_spots = 2\<rparr>"
  have r: "role admin = ''admin''" by (simp add: admin_def)
  have f: "find (\<lambda>l. l_id l = 1) (lots (mall_db ''A'' ''A'' [])) = Some ?lot"
    by (simp add: mall_db_def)
  have s: "strip ''  '' = []" "strip [] = []" by code_simp+
  have e: "edit_parking_lot admin 1 POST blank_form True (mall_db ''A'' ''A'' []) =
     (Inr LotUpdated,
      (mall_db ''A'' ''A'' [])\<lparr>lots :=
         [\<lparr>l_id = 1, prime_location_name = '''', price = - 5, address = '''',
           pin_code = '''', maximum_number_of_spots = 2\<rparr>]\<rparr>)"
    by (simp add: edit_parking_lot_def r mall_db_def blank_form_def edit_price_def s)
  show ?thesis
    using edit_parking_lot_no_validation [OF r f, of blank_form True] e
    by (simp add: blank_form_def s)
qed

section \<open>Release: the cost of a stay\<close>





lemma release_spot_result:
  assumes "role cu = ''user''" and "open_reservation s (u_id cu) = Some r"
  shows "release_spot cu now True s =
    (Inr (Released
        (case find (\<lambda>sp. s_id sp = spot_id r) (spots s) of
           Some sp \<Rightarrow> spot_number sp | None \<Rightarrow> ''your spot'')
        (round2 (total_seconds (now - parking_timestamp r) / 3600 * parking_cost_per_unit_time r))),
     s\<lparr>reservations :=
          map (\<lambda>x. if r_id x = r_id r
               then x\<lparr>leaving_timestamp := Some now,
                      total_cost := Some (round2 (total_seconds (now - parking_timestamp r) / 3600
                          * parking_cost_per_unit_time r))\<rparr>
               else x) (reservations s),
        spots := map (\<lambda>x. if s_id x = spot_id r then x\<lparr>status := ''A''\<rparr> else x) (spots s)\<rparr>)"
  using assms
  by (simp add: release_spot_def calculate_total_cost_def duration_hours_def Let_def)


lemma open_reservation_mem:
  "open_reservation s u = Some r \<Longrightarrow>
   r \<in> set (reservations s) \<and> user_id r = u \<and> leaving_timestamp r = None"
  by (auto simp: open_reservation_def find_Some_iff)






section \<open>Runs: what a request can change\<close>

lemma run_snoc: "run (reqs @ [r]) = handle r (run reqs)"
  by (simp add: run_def)

lemma run_induct:
  assumes "P init_db" and "\<And>r s. P s \<Longrightarrow> P (handle r s)"
  shows "P (run reqs)"
proof (induction reqs rule: rev_induct)
  case Nil
  show ?case using assms(1) by (simp add: run_def)
next
  case (snoc r reqs)
  then show ?case by (simp add: run_snoc assms(2))
qed

lemma fold_max_ge: "(a::int) \<le> fold max xs a"
  by (induction xs arbitrary: a) (auto intro: order_trans [OF max.cobounded2])

lemma fold_max_mem: "x \<in> set xs \<Longrightarrow> (x::int) \<le> fold max xs a"
proof (induction xs arbitrary: a)
  case Nil
  then show ?case by simp
next
  case (Cons y ys)
  show ?case
  proof (cases "x = y")
    case True
    have "y \<le> max y a" by simp
    also have "\<dots> \<le> fold max ys (max y a)" by (rule fold_max_ge)
    finally show ?thesis using True by simp
  next
    case False
    with Cons.prems have "x \<in> set ys" by simp
    then show ?thesis using Cons.IH by simp
  qed
qed

lemma next_id_greater: "i \<in> set ids \<Longrightarrow> i < next_id ids"
proof (cases ids)
  case Nil
  assume "i \<in> set ids"
  with Nil show ?thesis by simp
next
  case (Cons a js)
  assume "i \<in> set ids"
  with Cons have "i = a \<or> i \<in> set js" by simp
  then have "i \<le> fold max js a"
    using fold_max_ge [of a js] fold_max_mem [of i js a] by auto
  then show ?thesis using Cons by (simp add: next_id_def)
qed

lemma next_id_fresh: "next_id ids \<notin> set ids"
  using next_id_greater [of "next_id ids" ids] by auto

lemma book_spot_effect:
  "snd (book_spot cu lid now ok s) = s \<or>
   (\<exists>sp lot. role cu = ''user'' \<and> open_reservation s (u_id cu) = None \<and>
      find (\<lambda>l. l_id l = lid) (lots s) = Some lot \<and> available_spot s lid = Some sp \<and>
      snd (book_spot cu lid now ok s) =
        s\<lparr>spots := map (\<lambda>x. if s_id x = s_id sp then x\<lparr>status := ''O''\<rparr> else x) (spots s),
          reservations := reservations s @
            [\<lparr>r_id = next_id (map r_id (reservations s)), spot_id = s_id sp,
              user_id = u_id cu, parking_timestamp = now, leaving_timestamp = None,
              parking_cost_per_unit_time = price lot, total_cost = None\<rparr>]\<rparr>)"
  by (auto simp: book_spot_def split: option.splits)

lemma release_spot_effect:
  "snd (release_spot cu now ok s) = s \<or>
   (\<exists>r c. role cu = ''user'' \<and> open_reservation s (u_id cu) = Some r \<and>
      snd (release_spot cu now ok s) =
        s\<lparr>reservations :=
            map (\<lambda>x. if r_id x = r_id r
                 then x\<lparr>leaving_timestamp := Some now, total_cost := Some c\<rparr> else x)
              (reservations s),
          spots := map (\<lambda>x. if s_id x = spot_id r then x\<lparr>status := ''A''\<rparr> else x) (spots s)\<rparr>)"
  by (auto simp: release_spot_def Let_def split: option.splits)

lemma create_parking_lot_effect:
  "snd (create_parking_lot cu meth form ok s) = s \<or>
   (\<exists>p n. field_value (f_price form) = Some p \<and>
      field_value (f_maximum_number_of_spots form) = Some n \<and> 0 < n \<and>
      snd (create_parking_lot cu meth form ok s) =
        s\<lparr>lots := lots s @
            [\<lparr>l_id = next_id (map l_id (lots s)),
              prime_location_name = strip (f_prime_location_name form), price = p,
              address = strip (f_address form), pin_code = strip (f_pin_code form),
              maximum_number_of_spots = n\<rparr>],
          spots := spots s @
            new_spots (next_id (map l_id (lots s))) (strip (f_prime_location_name form))
              (next_id (map s_id (spots s))) n\<rparr>)"
  by (auto simp: create_parking_lot_def Let_def split: option.splits)

lemma edit_parking_lot_effect:
  "snd (edit_parking_lot cu lid meth form ok s) = s \<or>
   (\<exists>p. snd (edit_parking_lot cu lid meth form ok s) =
      s\<lparr>lots := map (\<lambda>l. if l_id l = lid
           then l\<lparr>prime_location_name := strip (f_prime_location_name form), price := p,
                  address := strip (f_address form), pin_code := strip (f_pin_code form)\<rparr>
           else l) (lots s)\<rparr>)"
  by (auto simp: edit_parking_lot_def split: option.splits)

lemma delete_parking_lot_effect:
  "snd (delete_parking_lot cu lid ok s) = s \<or>
   ((\<forall>sp \<in> set (spots s). lot_id sp = lid \<longrightarrow> status sp \<noteq> ''O'') \<and>
    snd (delete_parking_lot cu lid ok s) =
      s\<lparr>lots := filter (\<lambda>l. l_id l \<noteq> lid) (lots s),
        spots := filter (\<lambda>sp. lot_id sp \<noteq> lid) (spots s)\<rparr>)"
  by (auto simp: delete_parking_lot_def Let_def filter_empty_conv split: option.splits if_splits)

lemma register_effect:
  "snd (register meth name pw ok s) = s \<or>
   (\<exists>n. snd (register meth name pw ok s) =
      s\<lparr>users := users s @ [\<lparr>u_id = next_id (map u_id (users s)), username = n, role = ''user''\<rparr>]\<rparr>)"
  by (auto simp: register_def Let_def)

lemma register_reservations:
  "reservations (snd (register meth name pw ok s)) = reservations s"
  using register_effect [of meth name pw ok s] by auto

lemma create_parking_lot_reservations:
  "reservations (snd (create_parking_lot cu meth form ok s)) = reservations s"
  using create_parking_lot_effect [of cu meth form ok s] by auto

lemma edit_parking_lot_reservations:
  "reservations (snd (edit_parking_lot cu lid meth form ok s)) = reservations s"
  using edit_parking_lot_effect [of cu lid meth form ok s] by auto

lemma delete_parking_lot_reservations:
  "reservations (snd (delete_parking_lot cu lid ok s)) = reservations s"
  using delete_parking_lot_effect [of cu lid ok s] by auto

lemma create_parking_lot_users:
  "users (snd (create_parking_lot cu meth form ok s)) = users s"
  using create_parking_lot_effect [of cu meth form ok s] by auto

lemma edit_parking_lot_users:
  "users (snd (edit_parking_lot cu lid meth form ok s)) = users s"
  using edit_parking_lot_effect [of cu lid meth form ok s] by auto

lemma delete_parking_lot_users:
  "users (snd (delete_parking_lot cu lid ok s)) = users s"
  using delete_parking_lot_effect [of cu lid ok s] by auto

lemma load_user_id: "load_user s uid = Some cu \<Longrightarrow> u_id cu = uid"
  by (auto simp: load_user_def find_Some_iff)

section \<open>The spot-status invariant\<close>

lemma map_comp_keep: "(\<And>x. g (f x) = g x) \<Longrightarrow> map (g \<circ> f) xs = map g xs"
  by (induction xs) auto

lemma image_keep: "(\<And>x. g (f x) = g x) \<Longrightarrow> g ` set (map f xs) = g ` set xs"
  by (induction xs) auto

lemma consistent_lots [simp]: "consistent (s\<lparr>lots := L\<rparr>) = consistent s"
  by (simp add: consistent_def open_on_def)

lemma consistent_users [simp]: "consistent (s\<lparr>users := U\<rparr>) = consistent s"
  by (simp add: consistent_def open_on_def)

lemma consistent_book:
  assumes c: "consistent s" and sp: "sp \<in> set (spots s)" and st: "status sp = ''A''"
    and nr: "spot_id nr = s_id sp" "leaving_timestamp nr = None"
      "r_id nr = next_id (map r_id (reservations s))"
  shows "consistent
    (s\<lparr>spots := map (\<lambda>x. if s_id x = s_id sp then x\<lparr>status := ''O''\<rparr> else x) (spots s),
       reservations := reservations s @ [nr]\<rparr>)"
proof -
  let ?upd = "\<lambda>x. if s_id x = s_id sp then x\<lparr>status := ''O''\<rparr> else x"
  let ?s' = "s\<lparr>spots := map ?upd (spots s), reservations := reservations s @ [nr]\<rparr>"
  have cnt: "open_on ?s' i = open_on s i + (if i = s_id sp then 1 else 0)" for i
    using nr by (simp add: open_on_def)
  have zero: "open_on s (s_id sp) = 0"
    using c sp st by (auto simp: consistent_def)
  have ids: "s_id ` set (map ?upd (spots s)) = s_id ` set (spots s)"
    by (rule image_keep) simp
  have p1: "\<forall>x \<in> set (spots ?s').
      (status x = ''O'' \<and> open_on ?s' (s_id x) = 1) \<or>
      (status x = ''A'' \<and> open_on ?s' (s_id x) = 0)"
  proof
    fix x' assume "x' \<in> set (spots ?s')"
    then obtain x where x: "x \<in> set (spots s)" "x' = ?upd x" by auto
    from c x(1) have cx: "(status x = ''O'' \<and> open_on s (s_id x) = 1) \<or>
        (status x = ''A'' \<and> open_on s (s_id x) = 0)"
      by (simp add: consistent_def)
    show "(status x' = ''O'' \<and> open_on ?s' (s_id x') = 1) \<or>
      (status x' = ''A'' \<and> open_on ?s' (s_id x') = 0)"
    proof (cases "s_id x = s_id sp")
      case True
      then show ?thesis using x(2) zero by (simp add: cnt del: One_nat_def)
    next
      case False
      then show ?thesis using x(2) cx by (simp add: cnt del: One_nat_def)
    qed
  qed
  have p2: "\<forall>r \<in> set (reservations ?s').
      leaving_timestamp r = None \<longrightarrow> spot_id r \<in> s_id ` set (spots ?s')"
    using c sp nr(1) by (auto simp: consistent_def ids simp del: set_map)
  have p3: "distinct (map s_id (spots ?s'))"
    using c by (simp add: consistent_def map_comp_keep)
  have p4: "distinct (map r_id (reservations ?s'))"
    using c next_id_fresh [of "map r_id (reservations s)"] nr(3)
    by (simp add: consistent_def)
  show ?thesis
    unfolding consistent_def using p1 p2 p3 p4 by blast
qed

lemma closed_count:
  assumes "distinct (map r_id rs)" and "r \<in> set rs" and "leaving_timestamp r = None"
  shows "length (filter (\<lambda>x. spot_id x = i \<and> leaving_timestamp x = None)
           (map (\<lambda>x. if r_id x = r_id r
                 then x\<lparr>leaving_timestamp := Some now, total_cost := c\<rparr> else x) rs))
         + (if i = spot_id r then 1 else 0)
       = length (filter (\<lambda>x. spot_id x = i \<and> leaving_timestamp x = None) rs)"
  using assms
proof (induction rs)
  case Nil
  then show ?case by simp
next
  case (Cons a rs)
  let ?upd = "\<lambda>x. if r_id x = r_id r
                 then x\<lparr>leaving_timestamp := Some now, total_cost := c\<rparr> else x"
  show ?case
  proof (cases "a = r")
    case True
    with Cons.prems(1) have "\<forall>x \<in> set rs. r_id x \<noteq> r_id r" by (auto simp: image_iff)
    then have "map ?upd rs = rs" by (simp add: map_idI)
    then show ?thesis using True Cons.prems(3) by simp
  next
    case False
    with Cons.prems have mem: "r \<in> set rs" by simp
    with Cons.prems(1) have "r_id a \<noteq> r_id r" by (auto simp: image_iff)
    moreover have "length (filter (\<lambda>x. spot_id x = i \<and> leaving_timestamp x = None) (map ?upd rs))
         + (if i = spot_id r then 1 else 0)
       = length (filter (\<lambda>x. spot_id x = i \<and> leaving_timestamp x = None) rs)"
      using Cons.IH mem Cons.prems by simp
    ultimately show ?thesis by (cases "i = spot_id r") auto
  qed
qed

lemma consistent_release:
  assumes c: "consistent s" and r: "r \<in> set (reservations s)" "leaving_timestamp r = None"
  shows "consistent
    (s\<lparr>reservations :=
         map (\<lambda>x. if r_id x = r_id r
              then x\<lparr>leaving_timestamp := Some now, total_cost := k\<rparr> else x) (reservations s),
       spots := map (\<lambda>x. if s_id x = spot_id r then x\<lparr>status := ''A''\<rparr> else x) (spots s)\<rparr>)"
proof -
  let ?close = "\<lambda>x. if r_id x = r_id r
              then x\<lparr>leaving_timestamp := Some now, total_cost := k\<rparr> else x"
  let ?upd = "\<lambda>x. if s_id x = spot_id r then x\<lparr>status := ''A''\<rparr> else x"
  let ?s' = "s\<lparr>reservations := map ?close (reservations s), spots := map ?upd (spots s)\<rparr>"
  have d: "distinct (map r_id (reservations s))"
    using c by (simp add: consistent_def)
  have cnt: "open_on ?s' i + (if i = spot_id r then 1 else 0) = open_on s i" for i
    using closed_count [OF d r, where i = i and now = now and c = k] by (simp add: open_on_def)
  have ids: "s_id ` set (map ?upd (spots s)) = s_id ` set (spots s)"
    by (rule image_keep) simp
  have p1: "\<forall>x \<in> set (spots ?s').
      (status x = ''O'' \<and> open_on ?s' (s_id x) = 1) \<or>
      (status x = ''A'' \<and> open_on ?s' (s_id x) = 0)"
  proof
    fix x' assume "x' \<in> set (spots ?s')"
    then obtain x where x: "x \<in> set (spots s)" "x' = ?upd x" by auto
    from c x(1) have cx: "(status x = ''O'' \<and> open_on s (s_id x) = 1) \<or>
        (status x = ''A'' \<and> open_on s (s_id x) = 0)"
      by (simp add: consistent_def)
    show "(status x' = ''O'' \<and> open_on ?s' (s_id x') = 1) \<or>
      (status x' = ''A'' \<and> open_on ?s' (s_id x') = 0)"
    proof (cases "s_id x = spot_id r")
      case True
      with cnt [of "spot_id r"] cx have "open_on ?s' (spot_id r) = 0" by auto
      then show ?thesis using x(2) True by simp
    next
      case False
      with cnt [of "s_id x"] have "open_on ?s' (s_id x) = open_on s (s_id x)" by simp
      then show ?thesis using x(2) False cx by simp
    qed
  qed
  have p2: "\<forall>q \<in> set (reservations ?s').
      leaving_timestamp q = None \<longrightarrow> spot_id q \<in> s_id ` set (spots ?s')"
  proof
    fix q' assume "q' \<in> set (reservations ?s')"
    then obtain q where q: "q \<in> set (reservations s)" "q' = ?close q" by auto
    show "leaving_timestamp q' = None \<longrightarrow> spot_id q' \<in> s_id ` set (spots ?s')"
      using c q by (auto simp: consistent_def ids simp del: set_map split: if_splits)
  qed
  have p3: "distinct (map s_id (spots ?s'))"
    using c by (simp add: consistent_def map_comp_keep)
  have p4: "distinct (map r_id (reservations ?s'))"
    using c by (simp add: consistent_def map_comp_keep)
  show ?thesis
    unfolding consistent_def using p1 p2 p3 p4 by blast
qed

lemma new_spots_ids: "map s_id (new_spots lid name base n) = map (\<lambda>k. base + k - 1) [1..n]"
  by (simp add: new_spots_def new_spot_def comp_def)

lemma new_spots_mem:
  "x \<in> set (new_spots lid name base n) \<Longrightarrow>
   base \<le> s_id x \<and> status x = ''A'' \<and> lot_id x = lid"
  by (auto simp: new_spots_def new_spot_def)

lemma distinct_new_spots: "distinct (map s_id (new_spots lid name base n))"
  unfolding new_spots_ids by (simp add: distinct_map inj_on_def)

lemma consistent_create:
  assumes c: "consistent s"
  shows "consistent
    (s\<lparr>lots := L,
       spots := spots s @ new_spots lid name (next_id (map s_id (spots s))) n\<rparr>)"
proof -
  let ?new = "new_spots lid name (next_id (map s_id (spots s))) n"
  let ?s' = "s\<lparr>lots := L, spots := spots s @ ?new\<rparr>"
  have cnt: "open_on ?s' i = open_on s i" for i
    by (simp add: open_on_def)
  have less: "s_id y < s_id x" if "x \<in> set ?new" and "y \<in> set (spots s)" for x y
  proof -
    from that(2) have "s_id y \<in> set (map s_id (spots s))" by simp
    then have "s_id y < next_id (map s_id (spots s))" by (rule next_id_greater)
    with new_spots_mem [OF that(1)] show ?thesis by simp
  qed
  have fresh: "s_id x \<notin> s_id ` set (spots s)" if "x \<in> set ?new" for x
    using less [OF that] by force
  have p1: "\<forall>x \<in> set (spots ?s').
      (status x = ''O'' \<and> open_on ?s' (s_id x) = 1) \<or>
      (status x = ''A'' \<and> open_on ?s' (s_id x) = 0)"
  proof
    fix x assume "x \<in> set (spots ?s')"
    then consider "x \<in> set (spots s)" | "x \<in> set ?new" by auto
    then show "(status x = ''O'' \<and> open_on ?s' (s_id x) = 1) \<or>
      (status x = ''A'' \<and> open_on ?s' (s_id x) = 0)"
    proof cases
      case 1
      with c show ?thesis unfolding cnt by (simp add: consistent_def)
    next
      case 2
      have "\<forall>r \<in> set (reservations s).
          \<not> (spot_id r = s_id x \<and> leaving_timestamp r = None)"
        using c fresh [OF 2] unfolding consistent_def by metis
      then have "open_on s (s_id x) = 0"
        by (simp add: open_on_def filter_empty_conv)
      with new_spots_mem [OF 2] show ?thesis unfolding cnt by simp
    qed
  qed
  have p2: "\<forall>r \<in> set (reservations ?s').
      leaving_timestamp r = None \<longrightarrow> spot_id r \<in> s_id ` set (spots ?s')"
    using c by (auto simp: consistent_def)
  have "set (map s_id (spots s)) \<inter> set (map s_id ?new) = {}"
    using less by force
  then have p3: "distinct (map s_id (spots ?s'))"
    using c distinct_new_spots [of lid name "next_id (map s_id (spots s))" n]
    by (simp add: consistent_def)
  have p4: "distinct (map r_id (reservations ?s'))"
    using c by (simp add: consistent_def)
  show ?thesis
    unfolding consistent_def using p1 p2 p3 p4 by blast
qed

lemma consistent_delete:
  assumes c: "consistent s"
    and g: "\<forall>sp \<in> set (spots s). lot_id sp = lid \<longrightarrow> status sp \<noteq> ''O''"
  shows "consistent
    (s\<lparr>lots := L, spots := filter (\<lambda>sp. lot_id sp \<noteq> lid) (spots s)\<rparr>)"
proof -
  let ?s' = "s\<lparr>lots := L, spots := filter (\<lambda>sp. lot_id sp \<noteq> lid) (spots s)\<rparr>"
  have cnt: "open_on ?s' i = open_on s i" for i
    by (simp add: open_on_def)
  have p1: "\<forall>x \<in> set (spots ?s').
      (status x = ''O'' \<and> open_on ?s' (s_id x) = 1) \<or>
      (status x = ''A'' \<and> open_on ?s' (s_id x) = 0)"
    using c unfolding cnt by (simp add: consistent_def)
  have p2: "\<forall>r \<in> set (reservations ?s').
      leaving_timestamp r = None \<longrightarrow> spot_id r \<in> s_id ` set (spots ?s')"
  proof
    fix r assume "r \<in> set (reservations ?s')"
    then have r: "r \<in> set (reservations s)" by simp
    show "leaving_timestamp r = None \<longrightarrow> spot_id r \<in> s_id ` set (spots ?s')"
    proof
      assume o: "leaving_timestamp r = None"
      with c r obtain x where x: "x \<in> set (spots s)" "s_id x = spot_id r"
        by (auto simp: consistent_def)
      have "r \<in> set (filter (\<lambda>q. spot_id q = s_id x \<and> leaving_timestamp q = None)
                (reservations s))"
        using r o x(2) by simp
      then have "open_on s (s_id x) \<noteq> 0"
        unfolding open_on_def by (auto simp: filter_empty_conv)
      with c x(1) have "status x = ''O''" by (auto simp: consistent_def)
      with g x(1) have "lot_id x \<noteq> lid" by auto
      with x show "spot_id r \<in> s_id ` set (spots ?s')" by force
    qed
  qed
  have p3: "distinct (map s_id (spots ?s'))"
    using c by (simp add: consistent_def distinct_map_filter)
  have p4: "distinct (map r_id (reservations ?s'))"
    using c by (simp add: consistent_def)
  show ?thesis
    unfolding consistent_def using p1 p2 p3 p4 by blast
qed

lemma available_spot_mem:
  "available_spot s lid = Some sp \<Longrightarrow>
   sp \<in> set (spots s) \<and> lot_id sp = lid \<and> status sp = ''A''"
  by (auto simp: available_spot_def find_Some_iff)

lemma consistent_book_spot: "consistent s \<Longrightarrow> consistent (snd (book_spot cu lid now ok s))"
  using book_spot_effect [of cu lid now ok s]
  by (auto simp: consistent_book dest!: available_spot_mem)

lemma consistent_release_spot: "consistent s \<Longrightarrow> consistent (snd (release_spot cu now ok s))"
  using release_spot_effect [of cu now ok s]
  by (auto simp: consistent_release dest!: open_reservation_mem)

lemma consistent_handle: "consistent s \<Longrightarrow> consistent (handle r s)"
proof (cases r)
  case (Register meth name pw ok)
  assume "consistent s"
  then show ?thesis using Register register_effect [of meth name pw ok s] by auto
next
  case (CreateLot uid meth form ok)
  assume c: "consistent s"
  show ?thesis
  proof (cases "load_user s uid")
    case None
    then show ?thesis using CreateLot c by simp
  next
    case (Some cu)
    then show ?thesis
      using CreateLot c create_parking_lot_effect [of cu meth form ok s]
      by (auto simp: consistent_create)
  qed
next
  case (EditLot uid lid meth form ok)
  assume c: "consistent s"
  show ?thesis
  proof (cases "load_user s uid")
    case None
    then show ?thesis using EditLot c by simp
  next
    case (Some cu)
    then show ?thesis
      using EditLot c edit_parking_lot_effect [of cu lid meth form ok s] by auto
  qed
next
  case (DeleteLot uid lid ok)
  assume c: "consistent s"
  show ?thesis
  proof (cases "load_user s uid")
    case None
    then show ?thesis using DeleteLot c by simp
  next
    case (Some cu)
    then show ?thesis
      using DeleteLot c delete_parking_lot_effect [of cu lid ok s]
      by (auto simp: consistent_delete)
  qed
next
  case (Book uid lid now ok)
  assume "consistent s"
  then show ?thesis using Book by (auto simp: consistent_book_spot split: option.splits)
next
  case (Release uid now ok)
  assume "consistent s"
  then show ?thesis using Release by (auto simp: consistent_release_spot split: option.splits)
qed

lemma consistent_run: "consistent (run reqs)"
proof (rule run_induct)
  show "consistent init_db" by (simp add: consistent_def init_db_def)
qed (rule consistent_handle)

lemma consistent_invariant: "consistent s \<Longrightarrow> spot_status_invariant s"
  by (auto simp: consistent_def spot_status_invariant_def)

lemma find_append:
  "find P (xs @ ys) = (case find P xs of None \<Rightarrow> find P ys | Some x \<Rightarrow> Some x)"
  by (induction xs) auto

lemma find_key:
  "distinct (map f xs) \<Longrightarrow> x \<in> set xs \<Longrightarrow> find (\<lambda>y. f y = f x) xs = Some x"
  by (induction xs) (auto simp: image_iff)

lemma book_spot_success:
  assumes "book_spot cu lid now ok s = (Inr b, s1)"
  shows "role cu = ''user''" and "open_reservation s (u_id cu) = None" and "ok"
    and "\<exists>lot. find (\<lambda>l. l_id l = lid) (lots s) = Some lot"
    and "\<exists>sp. available_spot s lid = Some sp"
    and "b = Booked (spot_number (the (available_spot s lid)))
              (prime_location_name (the (find (\<lambda>l. l_id l = lid) (lots s))))"
    and "s1 = s\<lparr>spots := map (\<lambda>x. if s_id x = s_id (the (available_spot s lid))
                               then x\<lparr>status := ''O''\<rparr> else x) (spots s),
             reservations := reservations s @
               [\<lparr>r_id = next_id (map r_id (reservations s)),
                 spot_id = s_id (the (available_spot s lid)),
                 user_id = u_id cu, parking_timestamp = now, leaving_timestamp = None,
                 parking_cost_per_unit_time = price (the (find (\<lambda>l. l_id l = lid) (lots s))),
                 total_cost = None\<rparr>]\<rparr>"
  using assms by (auto simp: book_spot_def split: option.splits if_splits)

lemma book_then_release:
  assumes c: "consistent s" and b: "book_spot cu lid t1 ok1 s = (Inr b, s1)"
  shows "\<exists>sp. available_spot s lid = Some sp \<and>
         spot_status s (s_id sp) = Some ''A'' \<and>
         spot_status s1 (s_id sp) = Some ''O'' \<and>
         (\<exists>k. fst (release_spot cu t2 True s1) = Inr (Released (spot_number sp) k)) \<and>
         spot_status (snd (release_spot cu t2 True s1)) (s_id sp) = Some ''A''"
proof -
  note bs = book_spot_success [OF b]
  have role: "role cu = ''user''" and none: "open_reservation s (u_id cu) = None"
    using bs by simp_all
  from bs(5) obtain sp where av: "available_spot s lid = Some sp" by blast
  let ?nr = "\<lparr>r_id = next_id (map r_id (reservations s)), spot_id = s_id sp,
                 user_id = u_id cu, parking_timestamp = t1, leaving_timestamp = None,
                 parking_cost_per_unit_time = price (the (find (\<lambda>l. l_id l = lid) (lots s))),
                 total_cost = None\<rparr>"
  have s1: "s1 = s\<lparr>spots := map (\<lambda>x. if s_id x = s_id sp then x\<lparr>status := ''O''\<rparr> else x) (spots s),
             reservations := reservations s @ [?nr]\<rparr>"
    using bs(7) by (simp add: av)
  have sp: "sp \<in> set (spots s)" "status sp = ''A''"
    using available_spot_mem [OF av] by simp_all
  have d: "distinct (map s_id (spots s))"
    using c by (simp add: consistent_def)
  have f0: "find (\<lambda>x. s_id x = s_id sp) (spots s) = Some sp"
    using find_key [OF d sp(1)] .
  have f1: "find (\<lambda>x. s_id x = s_id sp) (spots s1) = Some (sp\<lparr>status := ''O''\<rparr>)"
    unfolding s1 by (simp add: find_map_keep f0)
  have o1: "open_reservation s1 (u_id cu) = Some ?nr"
    using none unfolding s1 by (simp add: open_reservation_def find_append)
  note rel = release_spot_result [OF role o1, of t2]
  have st0: "spot_status s (s_id sp) = Some ''A''"
    by (simp add: spot_status_def f0 sp(2))
  have st1: "spot_status s1 (s_id sp) = Some ''O''"
    by (simp add: spot_status_def f1)
  have lab: "\<exists>k. fst (release_spot cu t2 True s1) = Inr (Released (spot_number sp) k)"
    unfolding rel using f1 by simp
  have st2: "spot_status (snd (release_spot cu t2 True s1)) (s_id sp) = Some ''A''"
    unfolding rel using f1 by (simp add: spot_status_def find_map_keep)
  show ?thesis using av st0 st1 lab st2 by blast
qed

text \<open>
  C1. In every state that a sequence of requests reaches from the initial database, a
  spot is Occupied exactly when one open reservation references it, and Available
  otherwise. Book and Release, by any user and whatever their outcome, lead from such a
  state to a state with the same property. When Book succeeds, it has chosen a spot that
  was Available and is now Occupied, and a Release by the same user whose commit succeeds
  names that spot and makes it Available again.
\<close>

theorem spot_status_invariant_reachable:
  "spot_status_invariant (run reqs) \<and>
   spot_status_invariant (snd (book_spot cu lid now ok (run reqs))) \<and>
   spot_status_invariant (snd (release_spot cu now ok (run reqs))) \<and>
   (\<forall>b s1. book_spot cu lid t1 ok1 (run reqs) = (Inr b, s1) \<longrightarrow>
      (\<exists>sp. available_spot (run reqs) lid = Some sp \<and>
         spot_status (run reqs) (s_id sp) = Some ''A'' \<and>
         spot_status s1 (s_id sp) = Some ''O'' \<and>
         (\<exists>k. fst (release_spot cu t2 True s1) = Inr (Released (spot_number sp) k)) \<and>
         spot_status (snd (release_spot cu t2 True s1)) (s_id sp) = Some ''A''))"
proof -
  have c: "consistent (run reqs)" by (rule consistent_run)
  have 1: "spot_status_invariant (run reqs)"
    using c by (rule consistent_invariant)
  have 2: "spot_status_invariant (snd (book_spot cu lid now ok (run reqs)))"
    using consistent_book_spot [OF c] by (rule consistent_invariant)
  have 3: "spot_status_invariant (snd (release_spot cu now ok (run reqs)))"
    using consistent_release_spot [OF c] by (rule consistent_invariant)
  show ?thesis
    using 1 2 3 book_then_release [OF c] by blast
qed

theorem spot_status_invariant_reachable_witness:
  "spot_status_invariant (run (first_requests @ [Book 2 1 0 True])) \<and>
   map status (spots (run (first_requests @ [Book 2 1 0 True]))) = [''O'', ''A''] \<and>
   open_on (run (first_requests @ [Book 2 1 0 True])) 1 = 1 \<and>
   open_on (run (first_requests @ [Book 2 1 0 True])) 2 = 0 \<and>
   book_spot alice 1 0 True (run first_requests) =
     (Inr (Booked ''MAL-001'' ''Mall''), mall_db ''O'' ''A'' [parked 0]) \<and>
   spot_status (run first_requests) 1 = Some ''A'' \<and>
   spot_status (mall_db ''O'' ''A'' [parked 0]) 1 = Some ''O'' \<and>
   fst (release_spot alice 9000000000 True (mall_db ''O'' ''A'' [parked 0])) =
     Inr (Released ''MAL-001'' 25) \<and>
   spot_status (snd (release_spot alice 9000000000 True (mall_db ''O'' ''A'' [parked 0]))) 1 =
     Some ''A''"
proof -
  have b: "book_spot alice 1 0 True (run first_requests) =
     (Inr (Booked ''MAL-001'' ''Mall''), mall_db ''O'' ''A'' [parked 0])"
    by code_simp
  have a: "available_spot (run first_requests) 1 =
      Some \<lparr>s_id = 1, lot_id = 1, spot_number = ''MAL-001'', status = ''A''\<rparr>"
    by code_simp
  have st: "map status (spots (run (first_requests @ [Book 2 1 0 True]))) = [''O'', ''A'']"
    by code_simp
  have o: "open_on (run (first_requests @ [Book 2 1 0 True])) 1 = 1"
    "open_on (run (first_requests @ [Book 2 1 0 True])) 2 = 0"
    by code_simp+
  have l: "fst (release_spot alice 9000000000 True (mall_db ''O'' ''A'' [parked 0])) =
     Inr (Released ''MAL-001'' 25)"
    by code_simp
  show ?thesis
    using spot_status_invariant_reachable [of "first_requests @ [Book 2 1 0 True]"]
      spot_status_invariant_reachable [of first_requests alice 1 _ _ 0 True 9000000000]
      b a st o l
    by simp
qed

section \<open>One open reservation per user\<close>

lemma open_of_user_zero: "open_reservation s u = None \<Longrightarrow> open_of_user s u = 0"
  by (auto simp: open_reservation_def open_of_user_def find_None_iff filter_empty_conv)

lemma open_of_user_pos:
  "0 < open_of_user s u \<Longrightarrow> \<exists>r. open_reservation s u = Some r"
  using open_of_user_zero [of s u] by (cases "open_reservation s u") auto

lemma closing_decreases:
  "length (filter (\<lambda>x. user_id x = u \<and> leaving_timestamp x = None)
     (map (\<lambda>x. if P x then x\<lparr>leaving_timestamp := Some now, total_cost := c\<rparr> else x) rs))
   \<le> length (filter (\<lambda>x. user_id x = u \<and> leaving_timestamp x = None) rs)"
  by (induction rs) auto

lemma one_open_book_spot:
  "one_open_per_user s \<Longrightarrow> one_open_per_user (snd (book_spot cu lid now ok s))"
  using book_spot_effect [of cu lid now ok s]
  by (auto simp: one_open_per_user_def open_of_user_def [of "_\<lparr>spots := _, reservations := _\<rparr>"]
      open_of_user_def [symmetric] dest!: open_of_user_zero)

lemma release_spot_open_of_user:
  "open_of_user (snd (release_spot cu now ok s)) u \<le> open_of_user s u"
  using release_spot_effect [of cu now ok s]
proof (elim disjE exE conjE)
  assume "snd (release_spot cu now ok s) = s"
  then show ?thesis by simp
next
  fix r c
  assume "snd (release_spot cu now ok s) =
        s\<lparr>reservations :=
            map (\<lambda>x. if r_id x = r_id r
                 then x\<lparr>leaving_timestamp := Some now, total_cost := Some c\<rparr> else x)
              (reservations s),
          spots := map (\<lambda>x. if s_id x = spot_id r then x\<lparr>status := ''A''\<rparr> else x) (spots s)\<rparr>"
  then have e: "reservations (snd (release_spot cu now ok s)) =
        map (\<lambda>x. if r_id x = r_id r
                 then x\<lparr>leaving_timestamp := Some now, total_cost := Some c\<rparr> else x)
              (reservations s)"
    by simp
  show ?thesis
    unfolding open_of_user_def e by (rule closing_decreases)
qed

lemma one_open_release_spot:
  "one_open_per_user s \<Longrightarrow> one_open_per_user (snd (release_spot cu now ok s))"
  unfolding one_open_per_user_def
  using release_spot_open_of_user [of cu now ok s] order_trans by blast

lemma one_open_frame:
  "one_open_per_user s \<Longrightarrow> reservations s' = reservations s \<Longrightarrow> one_open_per_user s'"
  by (simp add: one_open_per_user_def open_of_user_def)

lemma one_open_handle:
  assumes a: "one_open_per_user s"
  shows "one_open_per_user (handle r s)"
proof (cases r)
  case (Register meth name pw ok)
  show ?thesis
    unfolding Register handle.simps
    by (rule one_open_frame [OF a register_reservations])
next
  case (CreateLot uid meth form ok)
  show ?thesis
    unfolding CreateLot handle.simps using a
    by (auto split: option.splits intro: one_open_frame [OF a create_parking_lot_reservations])
next
  case (EditLot uid lid meth form ok)
  show ?thesis
    unfolding EditLot handle.simps using a
    by (auto split: option.splits intro: one_open_frame [OF a edit_parking_lot_reservations])
next
  case (DeleteLot uid lid ok)
  show ?thesis
    unfolding DeleteLot handle.simps using a
    by (auto split: option.splits intro: one_open_frame [OF a delete_parking_lot_reservations])
next
  case (Book uid lid now ok)
  show ?thesis
    unfolding Book handle.simps using a
    by (auto split: option.splits intro: one_open_book_spot)
next
  case (Release uid now ok)
  show ?thesis
    unfolding Release handle.simps using a
    by (auto split: option.splits intro: one_open_release_spot)
qed

lemma one_open_run: "one_open_per_user (run reqs)"
proof (rule run_induct)
  show "one_open_per_user init_db"
    by (simp add: one_open_per_user_def open_of_user_def init_db_def)
qed (rule one_open_handle)

lemma regular_frame:
  "reservations_of_regular_users s \<Longrightarrow> reservations s' = reservations s \<Longrightarrow>
   users s' = users s \<Longrightarrow> reservations_of_regular_users s'"
  by (simp add: reservations_of_regular_users_def load_user_def)

lemma regular_register:
  assumes a: "reservations_of_regular_users s"
  shows "reservations_of_regular_users (snd (register meth name pw ok s))"
  using register_effect [of meth name pw ok s]
proof (elim disjE exE)
  assume "snd (register meth name pw ok s) = s"
  with a show ?thesis by simp
next
  fix n
  assume e: "snd (register meth name pw ok s) =
      s\<lparr>users := users s @ [\<lparr>u_id = next_id (map u_id (users s)), username = n, role = ''user''\<rparr>]\<rparr>"
  show ?thesis
    unfolding e using a
    by (auto simp: reservations_of_regular_users_def load_user_def find_append
        split: option.splits if_splits)
qed

lemma regular_book_spot:
  assumes a: "reservations_of_regular_users s" and l: "load_user s uid = Some cu"
  shows "reservations_of_regular_users (snd (book_spot cu lid now ok s))"
  using book_spot_effect [of cu lid now ok s]
proof (elim disjE exE conjE)
  assume "snd (book_spot cu lid now ok s) = s"
  with a show ?thesis by simp
next
  fix sp lot
  assume r: "role cu = ''user''"
    and e: "snd (book_spot cu lid now ok s) =
        s\<lparr>spots := map (\<lambda>x. if s_id x = s_id sp then x\<lparr>status := ''O''\<rparr> else x) (spots s),
          reservations := reservations s @
            [\<lparr>r_id = next_id (map r_id (reservations s)), spot_id = s_id sp,
              user_id = u_id cu, parking_timestamp = now, leaving_timestamp = None,
              parking_cost_per_unit_time = price lot, total_cost = None\<rparr>]\<rparr>"
  have "load_user s (u_id cu) = Some cu"
    using l load_user_id [OF l] by simp
  then show ?thesis
    unfolding e using a r
    by (auto simp: reservations_of_regular_users_def load_user_def)
qed

lemma regular_release_spot:
  assumes a: "reservations_of_regular_users s"
  shows "reservations_of_regular_users (snd (release_spot cu now ok s))"
  using release_spot_effect [of cu now ok s]
proof (elim disjE exE conjE)
  assume "snd (release_spot cu now ok s) = s"
  with a show ?thesis by simp
next
  fix r c
  assume e: "snd (release_spot cu now ok s) =
        s\<lparr>reservations :=
            map (\<lambda>x. if r_id x = r_id r
                 then x\<lparr>leaving_timestamp := Some now, total_cost := Some c\<rparr> else x)
              (reservations s),
          spots := map (\<lambda>x. if s_id x = spot_id r then x\<lparr>status := ''A''\<rparr> else x) (spots s)\<rparr>"
  show ?thesis
    unfolding e using a
    by (auto simp: reservations_of_regular_users_def load_user_def split: if_splits)
qed

lemma regular_handle:
  assumes a: "reservations_of_regular_users s"
  shows "reservations_of_regular_users (handle r s)"
proof (cases r)
  case (Register meth name pw ok)
  show ?thesis
    unfolding Register handle.simps by (rule regular_register [OF a])
next
  case (CreateLot uid meth form ok)
  show ?thesis
    unfolding CreateLot handle.simps using a
    by (auto split: option.splits
        intro: regular_frame [OF a create_parking_lot_reservations create_parking_lot_users])
next
  case (EditLot uid lid meth form ok)
  show ?thesis
    unfolding EditLot handle.simps using a
    by (auto split: option.splits
        intro: regular_frame [OF a edit_parking_lot_reservations edit_parking_lot_users])
next
  case (DeleteLot uid lid ok)
  show ?thesis
    unfolding DeleteLot handle.simps using a
    by (auto split: option.splits
        intro: regular_frame [OF a delete_parking_lot_reservations delete_parking_lot_users])
next
  case (Book uid lid now ok)
  show ?thesis
    unfolding Book handle.simps using a
    by (auto split: option.splits intro: regular_book_spot)
next
  case (Release uid now ok)
  show ?thesis
    unfolding Release handle.simps using a
    by (auto split: option.splits intro: regular_release_spot)
qed

lemma regular_run: "reservations_of_regular_users (run reqs)"
proof (rule run_induct)
  show "reservations_of_regular_users init_db"
    by (simp add: reservations_of_regular_users_def init_db_def)
qed (rule regular_handle)

text \<open>
  C2. In every reachable state every user has at most one open reservation. When the
  logged-in user already holds an open reservation, Book answers AlreadyParked and the
  database is unchanged: no reservation is created and no spot status changes.
\<close>

theorem one_open_reservation_per_user:
  "(\<forall>u. open_of_user (run reqs) u \<le> 1) \<and>
   (\<forall>cu. load_user (run reqs) uid = Some cu \<and> 0 < open_of_user (run reqs) (u_id cu) \<longrightarrow>
      book_spot cu lid now ok (run reqs) = (Inl AlreadyParked, run reqs))"
proof -
  let ?s = "run reqs"
  have 1: "\<forall>u. open_of_user ?s u \<le> 1"
    using one_open_run [of reqs] by (simp add: one_open_per_user_def)
  have 2: "book_spot cu lid now ok ?s = (Inl AlreadyParked, ?s)"
    if l: "load_user ?s uid = Some cu" and p: "0 < open_of_user ?s (u_id cu)" for cu
  proof -
    from open_of_user_pos [OF p] obtain r where o: "open_reservation ?s (u_id cu) = Some r"
      by blast
    have m: "r \<in> set (reservations ?s)" "user_id r = u_id cu"
      using open_reservation_mem [OF o] by simp_all
    have "load_user ?s (user_id r) = Some cu"
      using l load_user_id [OF l] m(2) by simp
    with regular_run [of reqs] m(1) have "role cu = ''user''"
      unfolding reservations_of_regular_users_def by blast
    then show ?thesis by (simp add: book_spot_def o)
  qed
  show ?thesis using 1 2 by blast
qed

theorem one_open_reservation_per_user_witness:
  "load_user (run (first_requests @ [Book 2 1 0 True])) 2 = Some alice \<and>
   open_of_user (run (first_requests @ [Book 2 1 0 True])) (u_id alice) = 1 \<and>
   book_spot alice 1 5 True (run (first_requests @ [Book 2 1 0 True])) =
     (Inl AlreadyParked, run (first_requests @ [Book 2 1 0 True]))"
proof -
  have l: "load_user (run (first_requests @ [Book 2 1 0 True])) 2 = Some alice"
    by code_simp
  have o: "open_of_user (run (first_requests @ [Book 2 1 0 True])) (u_id alice) = 1"
    by code_simp
  show ?thesis
    using one_open_reservation_per_user [of "first_requests @ [Book 2 1 0 True]" 2 1 5 True] l o
    by simp
qed

lemma only_open_one:
  assumes a: "one_open_per_user s" and o: "open_reservation s u = Some r"
    and x: "x \<in> set (reservations s)" "user_id x = u" "leaving_timestamp x = None"
  shows "x = r"
proof -
  let ?f = "filter (\<lambda>q. user_id q = u \<and> leaving_timestamp q = None) (reservations s)"
  have "length ?f \<le> 1"
    using a by (simp add: one_open_per_user_def open_of_user_def)
  moreover have "r \<in> set ?f" using open_reservation_mem [OF o] by simp
  moreover have "x \<in> set ?f" using x by simp
  ultimately show ?thesis
    by (cases ?f) (auto simp del: set_filter filter_eq_Cons_iff)
qed

text \<open>
  C8. When a Release in a reachable state has succeeded, the next Release by the same
  user, at any time and whatever its commit would do, answers NoActiveReservation and
  leaves the database exactly as the first Release left it.
\<close>

theorem release_spot_twice:
  assumes "release_spot cu t1 ok1 (run reqs) = (Inr x, s1)"
  shows "release_spot cu t2 ok2 s1 = (Inl NoActiveReservation, s1)"
proof -
  let ?s = "run reqs"
  have role: "role cu = ''user''"
    using assms by (auto simp: release_spot_def split: if_splits)
  obtain r where o: "open_reservation ?s (u_id cu) = Some r"
    using assms role by (cases "open_reservation ?s (u_id cu)") (auto simp: release_spot_def)
  have ok: "ok1"
    using assms role o by (auto simp: release_spot_def split: if_splits)
  have s1: "s1 = snd (release_spot cu t1 True ?s)"
    using assms ok by simp
  let ?close = "\<lambda>q. if r_id q = r_id r
      then q\<lparr>leaving_timestamp := Some t1,
             total_cost := Some (round2 (total_seconds (t1 - parking_timestamp r) / 3600
                 * parking_cost_per_unit_time r))\<rparr>
      else q"
  have rs: "reservations s1 = map ?close (reservations ?s)"
    unfolding s1 release_spot_result [OF role o] by simp
  have "\<not> (user_id q' = u_id cu \<and> leaving_timestamp q' = None)"
    if "q' \<in> set (reservations s1)" for q'
  proof
    assume h: "user_id q' = u_id cu \<and> leaving_timestamp q' = None"
    from that obtain q where q: "q \<in> set (reservations ?s)" "q' = ?close q"
      unfolding rs by auto
    from h q(2) have n: "r_id q \<noteq> r_id r" by (auto split: if_splits)
    with h q(2) have "user_id q = u_id cu" "leaving_timestamp q = None" by simp_all
    with only_open_one [OF one_open_run o q(1)] have "q = r" by simp
    with n show False by simp
  qed
  then have "open_reservation s1 (u_id cu) = None"
    by (auto simp: open_reservation_def find_None_iff)
  then show ?thesis using role by (simp add: release_spot_def)
qed

theorem release_spot_twice_witness:
  "release_spot alice 9000000000 True (run (first_requests @ [Book 2 1 0 True])) =
     (Inr (Released ''MAL-001'' 25),
      mall_db ''A'' ''A''
        [(parked 0)\<lparr>leaving_timestamp := Some 9000000000, total_cost := Some 25\<rparr>]) \<and>
   release_spot alice 9000000001 True
     (mall_db ''A'' ''A''
        [(parked 0)\<lparr>leaving_timestamp := Some 9000000000, total_cost := Some 25\<rparr>]) =
     (Inl NoActiveReservation,
      mall_db ''A'' ''A''
        [(parked 0)\<lparr>leaving_timestamp := Some 9000000000, total_cost := Some 25\<rparr>])"
proof -
  have r: "release_spot alice 9000000000 True (run (first_requests @ [Book 2 1 0 True])) =
     (Inr (Released ''MAL-001'' 25),
      mall_db ''A'' ''A''
        [(parked 0)\<lparr>leaving_timestamp := Some 9000000000, total_cost := Some 25\<rparr>])"
    by code_simp
  show ?thesis
    using release_spot_twice [OF r, of 9000000001 True] r by simp
qed

section \<open>Provisioning the spots of a lot, and first-fit booking\<close>

text \<open>
  The ordinal that \<^verbatim>\<open>create_parking_lot\<close> formats into a spot identifier is read back by
  \<open>ordinal\<close>; in every reachable state the spots of a lot stand in ascending ordinal
  order.
\<close>

declare str_nat.simps [simp del]

lemma digit_char_value: "d < 10 \<Longrightarrow> (of_char (digit_char d) :: nat) = 48 + d"
  by (simp add: digit_char_def)

lemma digit_char_not_hyphen: "d < 10 \<Longrightarrow> digit_char d \<noteq> CHR ''-''"
proof
  assume "d < 10" and "digit_char d = CHR ''-''"
  then have "(of_char (digit_char d) :: nat) = of_char (CHR ''-'')" by simp
  with \<open>d < 10\<close> show False by (simp add: digit_char_value)
qed

lemma nat_of_digits_snoc:
  "nat_of_digits (ds @ [c]) = 10 * nat_of_digits ds + (of_char c - 48)"
  by (simp add: nat_of_digits_def)

lemma nat_of_digits_str_nat: "nat_of_digits (str_nat n) = n"
proof (induction n rule: str_nat.induct)
  case (1 n)
  show ?case
  proof (cases "n < 10")
    case True
    then show ?thesis
      by (subst str_nat.simps) (simp add: nat_of_digits_def digit_char_value)
  next
    case False
    with 1 have "nat_of_digits (str_nat (n div 10)) = n div 10" by simp
    with False show ?thesis
      by (subst str_nat.simps) (simp add: nat_of_digits_snoc digit_char_value)
  qed
qed

lemma str_nat_no_hyphen: "CHR ''-'' \<notin> set (str_nat n)"
proof (induction n rule: str_nat.induct)
  case (1 n)
  show ?case
  proof (cases "n < 10")
    case True
    then show ?thesis
      using digit_char_not_hyphen [of n] by (subst str_nat.simps) auto
  next
    case False
    with 1 have "CHR ''-'' \<notin> set (str_nat (n div 10))" by simp
    with False show ?thesis
      using digit_char_not_hyphen [of "n mod 10"] by (subst str_nat.simps) auto
  qed
qed

lemma nat_of_digits_zeros: "nat_of_digits (replicate m (CHR ''0'') @ ds) = nat_of_digits ds"
  by (induction m) (simp_all add: nat_of_digits_def)

lemma nat_of_digits_zero_pad: "nat_of_digits (zero_pad w (str_nat n)) = n"
  by (simp add: zero_pad_def nat_of_digits_zeros nat_of_digits_str_nat)

lemma zero_pad_no_hyphen: "CHR ''-'' \<notin> set (zero_pad w (str_nat n))"
  using str_nat_no_hyphen [of n] by (auto simp: zero_pad_def)

lemma format_03d_spec: "0 \<le> k \<Longrightarrow> format_03d k = zero_pad 3 (str_nat (nat k))"
  by (simp add: format_03d_def)

lemma after_last_hyphen:
  assumes "CHR ''-'' \<notin> set ds"
  shows "rev (takeWhile (\<lambda>c. c \<noteq> CHR ''-'') (rev (p @ ''-'' @ ds))) = ds"
proof -
  have h: "takeWhile (\<lambda>c. c \<noteq> CHR ''-'') (rev ds) = rev ds"
    using assms by (auto simp: takeWhile_eq_all_conv)
  show ?thesis by (simp add: takeWhile_tail h)
qed

lemma ordinal_new_spot: "0 \<le> k \<Longrightarrow> ordinal (new_spot lid name base k) = nat k"
  using after_last_hyphen [OF zero_pad_no_hyphen, of "upper (take 3 name)" 3 "nat k"]
  by (simp add: ordinal_def new_spot_def format_03d_spec nat_of_digits_zero_pad)


lemma ordinals_new_spots:
  "map ordinal (new_spots lid name base n) = map nat [1..n]"
  by (simp add: new_spots_def ordinal_new_spot)

lemma sorted_ordinals_new_spots:
  "sorted_wrt (<) (map ordinal (new_spots lid name base n))"
proof -
  have "sorted_wrt (\<lambda>x y. nat x < nat y) [1..n]"
    by (rule sorted_wrt_mono_rel [OF _ sorted_wrt_upto]) auto
  then show ?thesis
    by (simp add: ordinals_new_spots sorted_wrt_map)
qed

lemma filter_new_spots:
  "filter (\<lambda>sp. lot_id sp = l) (new_spots lid name base n) =
     (if l = lid then new_spots lid name base n else [])"
  by (auto simp: filter_empty_conv dest: new_spots_mem intro!: filter_True)

lemma filter_keep:
  "(\<And>x. P (f x) = P x) \<Longrightarrow> filter P (map f xs) = map f (filter P xs)"
  by (induction xs) auto

lemma ordered_lots_status:
  assumes a: "ordered_lots s"
    and sp: "spots s' = map (\<lambda>x. if P x then x\<lparr>status := v\<rparr> else x) (spots s)"
    and lo: "lots s' = lots s"
  shows "ordered_lots s'"
proof -
  let ?f = "\<lambda>x. if P x then x\<lparr>status := v\<rparr> else x"
  have o: "ordinal (?f x) = ordinal x" for x
    by (simp add: ordinal_def)
  have "filter (\<lambda>sp. lot_id sp = l) (map ?f (spots s)) =
      map ?f (filter (\<lambda>sp. lot_id sp = l) (spots s))" for l
    by (rule filter_keep) simp
  then have 1: "map ordinal (filter (\<lambda>sp. lot_id sp = l) (spots s')) =
      map ordinal (filter (\<lambda>sp. lot_id sp = l) (spots s))" for l
    unfolding sp using map_keep [of ordinal ?f] o by simp
  have 2: "\<forall>x \<in> set (spots s'). lot_id x \<in> l_id ` set (lots s')"
    unfolding sp lo using a by (auto simp: ordered_lots_def)
  show ?thesis
    unfolding ordered_lots_def using a 1 2 by (simp add: ordered_lots_def)
qed

lemma ordered_lots_create:
  assumes a: "ordered_lots s" and l: "l_id new_lot = next_id (map l_id (lots s))"
  shows "ordered_lots
    (s\<lparr>lots := lots s @ [new_lot],
       spots := spots s @
         new_spots (next_id (map l_id (lots s))) name base n\<rparr>)"
proof -
  let ?lid = "next_id (map l_id (lots s))"
  have none: "filter (\<lambda>sp. lot_id sp = ?lid) (spots s) = []"
  proof -
    have "lot_id sp \<noteq> ?lid" if "sp \<in> set (spots s)" for sp
    proof -
      from a that have "lot_id sp \<in> set (map l_id (lots s))"
        by (auto simp: ordered_lots_def)
      then have "lot_id sp < ?lid" by (rule next_id_greater)
      then show ?thesis by simp
    qed
    then show ?thesis by (auto simp: filter_empty_conv)
  qed
  have "sorted_wrt (<) (map ordinal (filter (\<lambda>sp. lot_id sp = lid)
      (spots s @ new_spots ?lid name base n)))" for lid
  proof (cases "lid = ?lid")
    case True
    then show ?thesis
      by (simp add: none filter_new_spots sorted_ordinals_new_spots)
  next
    case False
    then show ?thesis
      using a by (simp add: filter_new_spots ordered_lots_def)
  qed
  moreover have "\<forall>sp \<in> set (spots s @ new_spots ?lid name base n).
      lot_id sp \<in> l_id ` set (lots s @ [new_lot])"
    using a l by (auto simp: ordered_lots_def dest: new_spots_mem)
  ultimately show ?thesis by (simp add: ordered_lots_def)
qed

lemma ordered_lots_edit:
  "ordered_lots s \<Longrightarrow> (\<And>x. l_id (f x) = l_id x) \<Longrightarrow>
   ordered_lots (s\<lparr>lots := map f (lots s)\<rparr>)"
  using image_keep [of l_id f "lots s"]
  by (auto simp: ordered_lots_def simp del: set_map)

lemma ordered_lots_delete:
  assumes "ordered_lots s"
  shows "ordered_lots
    (s\<lparr>lots := filter (\<lambda>l. l_id l \<noteq> lid) (lots s),
       spots := filter (\<lambda>sp. lot_id sp \<noteq> lid) (spots s)\<rparr>)"
proof -
  have "filter (\<lambda>sp. lot_id sp = l) (filter (\<lambda>sp. lot_id sp \<noteq> lid) (spots s)) =
      (if l = lid then [] else filter (\<lambda>sp. lot_id sp = l) (spots s))" for l
    by (auto simp: filter_empty_conv intro!: filter_cong)
  then show ?thesis
    using assms by (auto simp: ordered_lots_def)
qed

lemma ordered_lots_users [simp]: "ordered_lots (s\<lparr>users := U\<rparr>) = ordered_lots s"
  by (simp add: ordered_lots_def)

lemma ordered_lots_handle:
  assumes a: "ordered_lots s"
  shows "ordered_lots (handle r s)"
proof (cases r)
  case (Register meth name pw ok)
  show ?thesis
    unfolding Register handle.simps
    using a register_effect [of meth name pw ok s] by auto
next
  case (CreateLot uid meth form ok)
  have "ordered_lots (snd (create_parking_lot cu meth form ok s))" for cu
    using a create_parking_lot_effect [of cu meth form ok s]
    by (auto intro!: ordered_lots_create)
  then show ?thesis
    unfolding CreateLot handle.simps using a by (simp split: option.splits)
next
  case (EditLot uid lid meth form ok)
  have "ordered_lots (snd (edit_parking_lot cu lid meth form ok s))" for cu
    using a edit_parking_lot_effect [of cu lid meth form ok s]
    by (auto intro!: ordered_lots_edit)
  then show ?thesis
    unfolding EditLot handle.simps using a by (simp split: option.splits)
next
  case (DeleteLot uid lid ok)
  have "ordered_lots (snd (delete_parking_lot cu lid ok s))" for cu
    using a delete_parking_lot_effect [of cu lid ok s]
    by (auto intro!: ordered_lots_delete)
  then show ?thesis
    unfolding DeleteLot handle.simps using a by (simp split: option.splits)
next
  case (Book uid lid now ok)
  have "ordered_lots (snd (book_spot cu lid now ok s))" for cu
    using book_spot_effect [of cu lid now ok s]
  proof (elim disjE exE conjE)
    assume "snd (book_spot cu lid now ok s) = s"
    with a show ?thesis by simp
  next
    fix sp lot
    assume e: "snd (book_spot cu lid now ok s) =
        s\<lparr>spots := map (\<lambda>x. if s_id x = s_id sp then x\<lparr>status := ''O''\<rparr> else x) (spots s),
          reservations := reservations s @
            [\<lparr>r_id = next_id (map r_id (reservations s)), spot_id = s_id sp,
              user_id = u_id cu, parking_timestamp = now, leaving_timestamp = None,
              parking_cost_per_unit_time = price lot, total_cost = None\<rparr>]\<rparr>"
    show ?thesis
      unfolding e
      by (rule ordered_lots_status [OF a, where P = "\<lambda>x. s_id x = s_id sp" and v = "''O''"])
        simp_all
  qed
  then show ?thesis
    unfolding Book handle.simps using a by (simp split: option.splits)
next
  case (Release uid now ok)
  have "ordered_lots (snd (release_spot cu now ok s))" for cu
    using release_spot_effect [of cu now ok s]
  proof (elim disjE exE conjE)
    assume "snd (release_spot cu now ok s) = s"
    with a show ?thesis by simp
  next
    fix r c
    assume e: "snd (release_spot cu now ok s) =
        s\<lparr>reservations :=
            map (\<lambda>x. if r_id x = r_id r
                 then x\<lparr>leaving_timestamp := Some now, total_cost := Some c\<rparr> else x)
              (reservations s),
          spots := map (\<lambda>x. if s_id x = spot_id r then x\<lparr>status := ''A''\<rparr> else x) (spots s)\<rparr>"
    show ?thesis
      unfolding e
      by (rule ordered_lots_status [OF a, where P = "\<lambda>x. s_id x = spot_id r" and v = "''A''"])
        simp_all
  qed
  then show ?thesis
    unfolding Release handle.simps using a by (simp split: option.splits)
qed

lemma ordered_lots_run: "ordered_lots (run reqs)"
proof (rule run_induct)
  show "ordered_lots init_db" by (simp add: ordered_lots_def init_db_def)
qed (rule ordered_lots_handle)

lemma first_fit:
  assumes "sorted_wrt (<) (map g (filter Q xs))"
    and "find (\<lambda>x. Q x \<and> A x) xs = Some y"
    and "x \<in> set xs" and "Q x" and "A x" and "x \<noteq> y"
  shows "(g y :: nat) < g x"
  using assms
proof (induction xs)
  case Nil
  then show ?case by simp
next
  case (Cons a xs)
  show ?case
  proof (cases "Q a \<and> A a")
    case True
    with Cons.prems(2) have y: "y = a" by simp
    with Cons.prems(3,6) have "x \<in> set xs" by auto
    with Cons.prems(4) have "x \<in> set (filter Q xs)" by simp
    with Cons.prems(1) True y show ?thesis by auto
  next
    case False
    with Cons.prems(2) have f: "find (\<lambda>x. Q x \<and> A x) xs = Some y" by simp
    from False Cons.prems(3,4,5) have m: "x \<in> set xs" by auto
    have "sorted_wrt (<) (map g (filter Q xs))"
      using Cons.prems(1) by (cases "Q a") simp_all
    then show ?thesis
      using Cons.IH f m Cons.prems(4,5,6) by blast
  qed
qed

text \<open>
  C5. A regular user with no open reservation books in an existing lot, in a reachable
  state. The spot that \<^verbatim>\<open>.first()\<close> finds is an Available spot of the lot, and every other
  Available spot of the lot has a strictly larger ordinal; when the commit succeeds Book
  answers with that spot, marks it Occupied and adds the open reservation on it. If some
  spot of the lot is Available, such a spot is found. If none is, Book answers
  CapacityExceeded and the database is unchanged.
\<close>

theorem book_spot_first_fit:
  assumes "role cu = ''user''" and "open_reservation (run reqs) (u_id cu) = None"
    and "find (\<lambda>l. l_id l = lid) (lots (run reqs)) = Some lot"
  shows "(\<forall>sp. available_spot (run reqs) lid = Some sp \<longrightarrow>
       sp \<in> set (spots (run reqs)) \<and> lot_id sp = lid \<and> status sp = ''A'' \<and>
       (\<forall>x \<in> set (spots (run reqs)).
          lot_id x = lid \<and> status x = ''A'' \<and> x \<noteq> sp \<longrightarrow> ordinal sp < ordinal x) \<and>
       book_spot cu lid now True (run reqs) =
         (Inr (Booked (spot_number sp) (prime_location_name lot)),
          (run reqs)\<lparr>spots := map (\<lambda>x. if s_id x = s_id sp then x\<lparr>status := ''O''\<rparr> else x)
                                  (spots (run reqs)),
            reservations := reservations (run reqs) @
              [\<lparr>r_id = next_id (map r_id (reservations (run reqs))), spot_id = s_id sp,
                user_id = u_id cu, parking_timestamp = now, leaving_timestamp = None,
                parking_cost_per_unit_time = price lot, total_cost = None\<rparr>]\<rparr>)) \<and>
    ((\<exists>x \<in> set (spots (run reqs)). lot_id x = lid \<and> status x = ''A'') \<longrightarrow>
       (\<exists>sp. available_spot (run reqs) lid = Some sp)) \<and>
    ((\<forall>x \<in> set (spots (run reqs)). lot_id x = lid \<longrightarrow> status x \<noteq> ''A'') \<longrightarrow>
       book_spot cu lid now ok (run reqs) = (Inl CapacityExceeded, run reqs))"
proof -
  let ?s = "run reqs"
  have srt: "sorted_wrt (<) (map ordinal (filter (\<lambda>sp. lot_id sp = lid) (spots ?s)))"
    using ordered_lots_run [of reqs] by (simp add: ordered_lots_def)
  have 1: "sp \<in> set (spots ?s) \<and> lot_id sp = lid \<and> status sp = ''A'' \<and>
       (\<forall>x \<in> set (spots ?s).
          lot_id x = lid \<and> status x = ''A'' \<and> x \<noteq> sp \<longrightarrow> ordinal sp < ordinal x) \<and>
       book_spot cu lid now True ?s =
         (Inr (Booked (spot_number sp) (prime_location_name lot)),
          ?s\<lparr>spots := map (\<lambda>x. if s_id x = s_id sp then x\<lparr>status := ''O''\<rparr> else x) (spots ?s),
            reservations := reservations ?s @
              [\<lparr>r_id = next_id (map r_id (reservations ?s)), spot_id = s_id sp,
                user_id = u_id cu, parking_timestamp = now, leaving_timestamp = None,
                parking_cost_per_unit_time = price lot, total_cost = None\<rparr>]\<rparr>)"
    if av: "available_spot ?s lid = Some sp" for sp
  proof -
    have f: "find (\<lambda>x. lot_id x = lid \<and> status x = ''A'') (spots ?s) = Some sp"
      using av by (simp add: available_spot_def)
    have low: "\<forall>x \<in> set (spots ?s).
          lot_id x = lid \<and> status x = ''A'' \<and> x \<noteq> sp \<longrightarrow> ordinal sp < ordinal x"
      using first_fit [OF srt f] by blast
    have b: "book_spot cu lid now True ?s =
         (Inr (Booked (spot_number sp) (prime_location_name lot)),
          ?s\<lparr>spots := map (\<lambda>x. if s_id x = s_id sp then x\<lparr>status := ''O''\<rparr> else x) (spots ?s),
            reservations := reservations ?s @
              [\<lparr>r_id = next_id (map r_id (reservations ?s)), spot_id = s_id sp,
                user_id = u_id cu, parking_timestamp = now, leaving_timestamp = None,
                parking_cost_per_unit_time = price lot, total_cost = None\<rparr>]\<rparr>)"
      using assms av by (simp add: book_spot_def)
    show ?thesis using available_spot_mem [OF av] low b by simp
  qed
  have 2: "(\<exists>x \<in> set (spots ?s). lot_id x = lid \<and> status x = ''A'') \<longrightarrow>
       (\<exists>sp. available_spot ?s lid = Some sp)"
    by (cases "available_spot ?s lid") (auto simp: available_spot_def find_None_iff)
  have 3: "(\<forall>x \<in> set (spots ?s). lot_id x = lid \<longrightarrow> status x \<noteq> ''A'') \<longrightarrow>
       book_spot cu lid now ok ?s = (Inl CapacityExceeded, ?s)"
  proof
    assume "\<forall>x \<in> set (spots ?s). lot_id x = lid \<longrightarrow> status x \<noteq> ''A''"
    then have "available_spot ?s lid = None"
      by (auto simp: available_spot_def find_None_iff)
    then show "book_spot cu lid now ok ?s = (Inl CapacityExceeded, ?s)"
      using assms by (simp add: book_spot_def)
  qed
  show ?thesis using 1 2 3 by blast
qed

theorem book_spot_first_fit_witness:
  "available_spot (run first_requests) 1 =
     Some \<lparr>s_id = 1, lot_id = 1, spot_number = ''MAL-001'', status = ''A''\<rparr> \<and>
   ordinal \<lparr>s_id = 1, lot_id = 1, spot_number = ''MAL-001'', status = ''A''\<rparr> = 1 \<and>
   ordinal \<lparr>s_id = 2, lot_id = 1, spot_number = ''MAL-002'', status = ''A''\<rparr> = 2 \<and>
   book_spot alice 1 0 True (run first_requests) =
     (Inr (Booked ''MAL-001'' ''Mall''), mall_db ''O'' ''A'' [parked 0]) \<and>
   load_user (run full_requests) 4 = Some carol \<and>
   map status (spots (run full_requests)) = [''O'', ''O''] \<and>
   book_spot carol 1 9 True (run full_requests) = (Inl CapacityExceeded, run full_requests)"
proof -
  let ?lot = "\<lparr>l_id = 1, prime_location_name = ''Mall'', price = 10,
               address = ''1 Main St'', pin_code = ''12345'', maximum_number_of_spots = 2\<rparr>"
  have ra: "role alice = ''user''" and rc: "role carol = ''user''"
    by (simp_all add: alice_def carol_def)
  have oa: "open_reservation (run first_requests) (u_id alice) = None" by code_simp
  have oc: "open_reservation (run full_requests) (u_id carol) = None" by code_simp
  have la: "find (\<lambda>l. l_id l = 1) (lots (run first_requests)) = Some ?lot" by code_simp
  have lc: "find (\<lambda>l. l_id l = 1) (lots (run full_requests)) = Some ?lot" by code_simp
  have av: "available_spot (run first_requests) 1 =
     Some \<lparr>s_id = 1, lot_id = 1, spot_number = ''MAL-001'', status = ''A''\<rparr>"
    by code_simp
  have od: "ordinal \<lparr>s_id = 1, lot_id = 1, spot_number = ''MAL-001'', status = ''A''\<rparr> = 1"
    "ordinal \<lparr>s_id = 2, lot_id = 1, spot_number = ''MAL-002'', status = ''A''\<rparr> = 2"
    by code_simp+
  have b: "book_spot alice 1 0 True (run first_requests) =
     (Inr (Booked ''MAL-001'' ''Mall''), mall_db ''O'' ''A'' [parked 0])"
    by code_simp
  have lu: "load_user (run full_requests) 4 = Some carol" by code_simp
  have st: "map status (spots (run full_requests)) = [''O'', ''O'']" by code_simp
  have full: "\<forall>x \<in> set (spots (run full_requests)). lot_id x = 1 \<longrightarrow> status x \<noteq> ''A''"
    by code_simp
  show ?thesis
    using book_spot_first_fit [OF ra oa la, of 0 True]
      book_spot_first_fit [OF rc oc lc, of 9 True] av od b lu st full
    by simp
qed






end
